theory Spec2Isabelle
  imports Main "HOL-Library.AList"
begin

section \<open>Strings and numbers of the host language\<close>

text \<open>
  A string is a list of code units; the model covers the code units below 256
  (ASCII and Latin-1), one \<^typ>\<open>char\<close> each, so \<open>length\<close> is the \<open>.length\<close> of the
  source. Question numbers, lengths and indexes are integers. A number is printed
  the way a template literal prints it: an integer of magnitude below \<open>10^21\<close> in
  plain decimal, a larger one in exponent form (\<open>1e+21\<close>, \<open>1.5e+21\<close>). The digits
  printed are the digits of the integer, which is what the host prints for every safe
  integer and for every integer with at most 15 significant digits.
\<close>

definition is_upper :: "char \<Rightarrow> bool" where
  "is_upper c = (let n = (of_char c :: nat) in
     (65 \<le> n \<and> n \<le> 90) \<or> (192 \<le> n \<and> n \<le> 222 \<and> n \<noteq> 215))"

definition lower_char :: "char \<Rightarrow> char" where
  "lower_char c = (if is_upper c then char_of ((of_char c :: nat) + 32) else c)"

definition toLowerCase :: "string \<Rightarrow> string" where
  "toLowerCase s = map lower_char s"

text \<open>The class \<open>[a-z0-9]\<close>, the class \<open>\s\<close> and the class \<open>[a-z0-9\-]\<close>.\<close>

definition is_az09 :: "char \<Rightarrow> bool" where
  "is_az09 c = (let n = (of_char c :: nat) in (97 \<le> n \<and> n \<le> 122) \<or> (48 \<le> n \<and> n \<le> 57))"

definition is_space :: "char \<Rightarrow> bool" where
  "is_space c = (let n = (of_char c :: nat) in (9 \<le> n \<and> n \<le> 13) \<or> n = 32 \<or> n = 160)"

definition is_slug_char :: "char \<Rightarrow> bool" where
  "is_slug_char c = (is_az09 c \<or> c = CHR ''-'')"

text \<open>\<open>s.startsWith(p)\<close>, \<open>s.includes(p)\<close>, \<open>s.substring(0, n)\<close> and \<open>xs.join(sep)\<close>.\<close>

definition startsWith :: "string \<Rightarrow> string \<Rightarrow> bool" where
  "startsWith s p = (take (length p) s = p)"

fun str_includes :: "string \<Rightarrow> string \<Rightarrow> bool" where
  "str_includes [] p = (p = [])"
| "str_includes (c # cs) p = (startsWith (c # cs) p \<or> str_includes cs p)"

definition substring0 :: "string \<Rightarrow> int \<Rightarrow> string" where
  "substring0 s n = take (nat n) s"

fun join :: "string \<Rightarrow> string list \<Rightarrow> string" where
  "join sep [] = []"
| "join sep [x] = x"
| "join sep (x # y # ys) = x @ sep @ join sep (y # ys)"

text \<open>\<open>s.trim()\<close> and \<open>s.split(/\s+/)\<close>.\<close>

definition trim :: "string \<Rightarrow> string" where
  "trim s = rev (dropWhile is_space (rev (dropWhile is_space s)))"

function split_spaces :: "string \<Rightarrow> string list" where
  "split_spaces [] = [[]]"
| "split_spaces (c # cs) =
     (if is_space c then [] # split_spaces (dropWhile is_space cs)
      else (case split_spaces cs of
              [] \<Rightarrow> [[c]]
            | w # ws \<Rightarrow> (c # w) # ws))"
  by pat_completeness auto
termination
  by (relation "measure length") (auto simp: length_dropWhile_le less_Suc_eq_le)

text \<open>\<open>s.replace(/\s+/g, '-')\<close>: every maximal run of white space becomes one hyphen.\<close>

function spaces_to_hyphen :: "string \<Rightarrow> string" where
  "spaces_to_hyphen [] = []"
| "spaces_to_hyphen (c # cs) =
     (if is_space c then CHR ''-'' # spaces_to_hyphen (dropWhile is_space cs)
      else c # spaces_to_hyphen cs)"
  by pat_completeness auto
termination
  by (relation "measure length") (auto simp: length_dropWhile_le less_Suc_eq_le)

text \<open>\<open>s.replace(/-+/g, '-')\<close> and \<open>s.replace(/^-|-$/g, '')\<close>.\<close>

fun collapse_hyphens :: "string \<Rightarrow> string" where
  "collapse_hyphens (a # b # cs) =
     (if a = CHR ''-'' \<and> b = CHR ''-'' then collapse_hyphens (b # cs)
      else a # collapse_hyphens (b # cs))"
| "collapse_hyphens cs = cs"

definition strip_edge_hyphens :: "string \<Rightarrow> string" where
  "strip_edge_hyphens s =
     (let t = (case s of [] \<Rightarrow> [] | c # cs \<Rightarrow> if c = CHR ''-'' then cs else s)
      in if t \<noteq> [] \<and> last t = CHR ''-'' then butlast t else t)"

text \<open>The decimal digits of a natural number.\<close>

definition digit_char :: "nat \<Rightarrow> char" where
  "digit_char d = char_of (48 + d)"

function natToString :: "nat \<Rightarrow> string" where
  "natToString n = (if n < 10 then [digit_char n] else natToString (n div 10) @ [digit_char (n mod 10)])"
  by pat_completeness auto
termination
  by (relation "measure id") auto

declare natToString.simps [simp del]

text \<open>
  Exponent form: the significant digits, a point after the first of them when there
  are more, and the exponent, which is the number of digits less one.
\<close>

definition is_digit :: "char \<Rightarrow> bool" where
  "is_digit c = (let n = (of_char c :: nat) in 48 \<le> n \<and> n \<le> 57)"

definition strip_trailing_zeros :: "string \<Rightarrow> string" where
  "strip_trailing_zeros ds = rev (dropWhile (\<lambda>c. c = CHR ''0'') (rev ds))"

definition mantissa :: "string \<Rightarrow> string" where
  "mantissa sig = (case sig of [] \<Rightarrow> [] | d # rest \<Rightarrow> d # (if rest = [] then [] else CHR ''.'' # rest))"

definition exponentForm :: "nat \<Rightarrow> string" where
  "exponentForm n =
     mantissa (strip_trailing_zeros (natToString n)) @ ''e+'' @ natToString (length (natToString n) - 1)"

definition printMagnitude :: "int \<Rightarrow> string" where
  "printMagnitude m =
     (if m < 1000000000000000000000 then natToString (nat m) else exponentForm (nat m))"

definition numberToString :: "int \<Rightarrow> string" where
  "numberToString i = (if i < 0 then CHR ''-'' # printMagnitude (- i) else printMagnitude i)"

section \<open>The question record\<close>

text \<open>
  The fields of \<open>Question\<close> that the slug, title, keyword, index and sitemap code
  reads (\<open>type\<close> is \<open>qtype\<close> here and \<open>section\<close> is \<open>section_of\<close>). An optional
  field is an option. The statement is declared a string, but the code tests its
  run-time type, so the statement is a value that is missing, a string, or a truthy
  value of another type.
\<close>

datatype statement_value = Missing | Text string | NonText

record question =
  questionNumber :: int
  statement :: statement_value
  qtype :: "string option"
  exam :: "string option"
  subExam :: "string option"
  section_of :: "string option"
  difficulty :: "string option"
  tags :: "string list option"
  category :: "string option"
  topic :: "string option"
  updatedAt :: string

text \<open>Truthiness: a missing value and the empty string are falsy.\<close>

definition truthy :: "string option \<Rightarrow> bool" where
  "truthy v = (case v of None \<Rightarrow> False | Some s \<Rightarrow> s \<noteq> [])"

definition statement_truthy :: "statement_value \<Rightarrow> bool" where
  "statement_truthy v = (case v of Missing \<Rightarrow> False | Text s \<Rightarrow> s \<noteq> [] | NonText \<Rightarrow> True)"

text \<open>\<open>v || ''\<close> for an optional string, and a value inside a template literal.\<close>

definition or_empty :: "string option \<Rightarrow> string" where
  "or_empty v = (case v of None \<Rightarrow> [] | Some s \<Rightarrow> s)"

definition template :: "string option \<Rightarrow> string" where
  "template v = (case v of None \<Rightarrow> ''undefined'' | Some s \<Rightarrow> s)"

section \<open>Slug builder\<close>

text \<open>The regular expression \<open>/\.(jpg|jpeg|png|gif|webp|svg|bmp)(\?|$)/\<close>.\<close>

definition image_extensions :: "string list" where
  "image_extensions = [''jpg'', ''jpeg'', ''png'', ''gif'', ''webp'', ''svg'', ''bmp'']"

definition extension_here :: "string \<Rightarrow> bool" where
  "extension_here s = list_ex (\<lambda>e. startsWith s (CHR ''.'' # e) \<and>
       (let r = drop (Suc (length e)) s in r = [] \<or> hd r = CHR ''?'')) image_extensions"

fun has_image_extension :: "string \<Rightarrow> bool" where
  "has_image_extension [] = False"
| "has_image_extension (c # cs) = (extension_here (c # cs) \<or> has_image_extension cs)"

definition isImageUrl :: "statement_value \<Rightarrow> bool" where
  "isImageUrl v = (case v of
       Text text \<Rightarrow>
         (let lower = toLowerCase text in
          if startsWith lower ''http://'' \<or> startsWith lower ''https://'' then True
          else if has_image_extension lower then True
          else if str_includes lower ''cloudinary.com'' \<or> str_includes lower ''res.cloudinary.com'' then True
          else False)
     | _ \<Rightarrow> False)"

definition question_fallback :: "question \<Rightarrow> string" where
  "question_fallback q = ''question-'' @ numberToString (questionNumber q)"

definition statementText_of :: "question \<Rightarrow> string" where
  "statementText_of q =
     (if isImageUrl (statement q) then ''visual-question''
      else (case statement q of Text s \<Rightarrow> s | _ \<Rightarrow> ''visual-question''))"

definition statementSlug_of :: "question \<Rightarrow> string" where
  "statementSlug_of q =
     substring0 (join ''-'' (take 8 (split_spaces (trim
        (filter (\<lambda>c. is_az09 c \<or> is_space c) (toLowerCase (statementText_of q))))))) 50"

definition examSlug_of :: "question \<Rightarrow> string" where
  "examSlug_of q = substring0 (spaces_to_hyphen (toLowerCase (or_empty (exam q)))) 30"

definition subExamSlug_of :: "question \<Rightarrow> string" where
  "subExamSlug_of q =
     (if truthy (subExam q) \<and> subExam q \<noteq> Some ''General''
      then substring0 (spaces_to_hyphen (toLowerCase (or_empty (subExam q)))) 30
      else [])"

definition topicSlug_of :: "question \<Rightarrow> string" where
  "topicSlug_of q =
     substring0 (spaces_to_hyphen
        (filter (\<lambda>c. is_az09 c \<or> is_space c) (toLowerCase (or_empty (topic q))))) 30"

definition slug_parts :: "question \<Rightarrow> string list" where
  "slug_parts q =
     [statementSlug_of q, examSlug_of q]
       @ (if subExamSlug_of q \<noteq> [] then [subExamSlug_of q] else [])
       @ (if topicSlug_of q \<noteq> [] then [topicSlug_of q] else [])"

text \<open>The joined parts, and the same after the length check of lines 174 to 176.\<close>

definition joined_slug :: "question \<Rightarrow> string" where
  "joined_slug q = join ''-'' (slug_parts q)"

definition capped_slug :: "question \<Rightarrow> string" where
  "capped_slug q =
     (if length (joined_slug q) > 200
      then substring0 (joined_slug q) 180 @ ''-q'' @ numberToString (questionNumber q)
      else joined_slug q)"

definition final_sanitize :: "string \<Rightarrow> string" where
  "final_sanitize s =
     strip_edge_hyphens (collapse_hyphens (map (\<lambda>c. if is_slug_char c then c else CHR ''-'') s))"

definition buildBaseSlug :: "question \<Rightarrow> string" where
  "buildBaseSlug q =
     (if \<not> statement_truthy (statement q) \<or> \<not> truthy (exam q) \<or> \<not> truthy (topic q)
      then question_fallback q
      else (let slug = final_sanitize (capped_slug q)
            in if slug \<noteq> [] then slug else question_fallback q))"

definition generateQuickSlug :: "question \<Rightarrow> string" where
  "generateQuickSlug q =
     (if \<not> statement_truthy (statement q) \<or> \<not> truthy (exam q) \<or> \<not> truthy (topic q)
      then question_fallback q
      else buildBaseSlug q)"

text \<open>A string in which no two hyphens are adjacent.\<close>

fun single_hyphens :: "string \<Rightarrow> bool" where
  "single_hyphens (a # b # cs) = (\<not> (a = CHR ''-'' \<and> b = CHR ''-'') \<and> single_hyphens (b # cs))"
| "single_hyphens cs = True"


text \<open>
  A string of symbols only: no letter of \<open>A-Z\<close> or \<open>a-z\<close> and no digit occurs in it.
\<close>

definition is_alnum :: "char \<Rightarrow> bool" where
  "is_alnum c = (let n = (of_char c :: nat) in
     (48 \<le> n \<and> n \<le> 57) \<or> (65 \<le> n \<and> n \<le> 90) \<or> (97 \<le> n \<and> n \<le> 122))"

definition symbols_only :: "string \<Rightarrow> bool" where
  "symbols_only s = list_all (\<lambda>c. \<not> is_alnum c) s"

text \<open>The questions used as concrete inputs below.\<close>

definition q_hcf :: question where
  "q_hcf = \<lparr>questionNumber = 7, statement = Text ''Find HCF of 12 and 18'',
     qtype = Some ''Integer'', exam = Some ''SSC'', subExam = None, section_of = None,
     difficulty = Some ''Easy'', tags = None, category = None,
     topic = Some ''Number System'', updatedAt = ''2024-01-01''\<rparr>"

definition q_symbols :: question where
  "q_symbols = \<lparr>questionNumber = 7, statement = Text ''???'',
     qtype = Some ''MCQ'', exam = Some ''!!!'', subExam = None, section_of = None,
     difficulty = Some ''Easy'', tags = None, category = None,
     topic = Some ''***'', updatedAt = ''2024-01-01''\<rparr>"

text \<open>The number that a string of decimal digits stands for.\<close>

definition digit_value :: "char \<Rightarrow> nat" where
  "digit_value c = of_char c - 48"

definition decimal_value :: "string \<Rightarrow> nat" where
  "decimal_value s = foldl (\<lambda>acc c. 10 * acc + digit_value c) 0 s"


text \<open>A question without topic whose number is \<open>1e21\<close>.\<close>

definition q_big :: question where
  "q_big = \<lparr>questionNumber = 1000000000000000000000, statement = Text ''What is 2+2?'',
     qtype = Some ''MCQ'', exam = Some ''CAT'', subExam = None, section_of = None,
     difficulty = Some ''Easy'', tags = None, category = None,
     topic = None, updatedAt = ''2024-01-01''\<rparr>"

section \<open>Title\<close>

text \<open>\<open>s.lastIndexOf(c)\<close>: the last index at which \<open>c\<close> occurs, or \<open>-1\<close>.\<close>

definition lastIndexOf :: "string \<Rightarrow> char \<Rightarrow> int" where
  "lastIndexOf s c =
     (if c \<in> set s then int (length s) - 1 - int (length (takeWhile (\<lambda>x. x \<noteq> c) (rev s)))
      else - 1)"

text \<open>Lines 199 to 201 of \<open>generateTitle\<close>: the text that stands for the statement.\<close>

definition title_statementText :: "question \<Rightarrow> string" where
  "title_statementText q =
     (case statement q of
        Text s \<Rightarrow> if \<not> startsWith s ''http'' then s else template (topic q) @ '' Question''
      | _ \<Rightarrow> template (topic q) @ '' Question'')"

text \<open>Lines 203 to 222: the title built around a given statement text.\<close>

definition title_from :: "string \<Rightarrow> question \<Rightarrow> string" where
  "title_from statementText q =
     (let examPart = template (exam q) @ '' '' @ template (difficulty q);
          topicPart = template (topic q);
          suffixLength = int (length ('' | '' @ examPart @ '' | '' @ topicPart));
          maxStatementLength = 120 - suffixLength - 4;
          truncatedStatement =
            (if int (length statementText) > maxStatementLength
             then (let t = substring0 statementText maxStatementLength;
                       lastSpace = lastIndexOf t CHR '' ''
                   in (if lastSpace > 0 then substring0 t lastSpace else t) @ ''...'')
             else statementText)
      in substring0 (truncatedStatement @ '' | '' @ examPart @ '' | '' @ topicPart) 120)"

definition generateTitle :: "question \<Rightarrow> string" where
  "generateTitle q = title_from (title_statementText q) q"

section \<open>Keywords\<close>

text \<open>
  The keyword table is a plain object, read with \<open>EXAM_KEYWORD_MAP[exam]\<close> and
  \<open>examData[subExam || '_default']\<close>. Such a read finds the object's own
  properties and, for a name the object does not have, the properties every
  object inherits from \<open>Object.prototype\<close>: eleven functions, and \<open>__proto__\<close>,
  which is the prototype itself (and \<open>null\<close> when read from the prototype).
\<close>

datatype exam_keywords = Flat "string list" | Nested "(string \<times> string list) list"

definition EXAM_KEYWORD_MAP :: "(string \<times> exam_keywords) list" where
  "EXAM_KEYWORD_MAP =
    [(''CAT'', Flat [''cat pyq'', ''cat previous year questions'', ''cat quant questions'',
        ''cat aptitude practice'', ''cat exam preparation'']),
     (''Placements'', Flat [''placement aptitude questions'', ''campus placement practice'',
        ''placement papers'', ''aptitude for placements'']),
     (''SSC'', Nested
       [(''CGL Tier 1'', [''ssc cgl pyq'', ''ssc cgl tier 1 questions'']),
        (''CGL Tier 2'', [''ssc cgl tier 2 questions'', ''ssc cgl tier 2 pyq'']),
        (''CHSL'', [''ssc chsl questions'', ''ssc chsl pyq'']),
        (''_default'', [''ssc aptitude questions'', ''ssc previous year papers''])]),
     (''Banking'', Nested
       [(''IBPS PO'', [''ibps po questions'', ''ibps po pyq'']),
        (''SBI PO'', [''sbi po questions'', ''sbi po quant'']),
        (''RBI Grade B'', [''rbi grade b questions'']),
        (''_default'', [''bank exam aptitude'', ''bank pyq''])]),
     (''Railways'', Flat [''railway exam aptitude'', ''rrb ntpc questions'', ''rrb pyq'']),
     (''CUET'', Flat [''cuet gat questions'', ''cuet aptitude practice'', ''cuet pyq''])]"

definition UNIVERSAL_KEYWORDS :: "string list" where
  "UNIVERSAL_KEYWORDS =
    [''aptitude questions'', ''aptitude practice'', ''previous year questions'',
     ''quantitative aptitude'', ''logical reasoning questions'',
     ''competitive exam questions'', ''pyq'']"

definition prototype_functions :: "string list" where
  "prototype_functions =
    [''constructor'', ''hasOwnProperty'', ''isPrototypeOf'', ''propertyIsEnumerable'',
     ''toLocaleString'', ''toString'', ''valueOf'', ''__defineGetter__'',
     ''__defineSetter__'', ''__lookupGetter__'', ''__lookupSetter__'']"

datatype 'a property = Undefined | Own 'a | InheritedFunction | InheritedPrototype

definition get_property :: "(string \<times> 'a) list \<Rightarrow> string \<Rightarrow> 'a property" where
  "get_property obj name =
     (case map_of obj name of
        Some v \<Rightarrow> Own v
      | None \<Rightarrow> if name \<in> set prototype_functions then InheritedFunction
                else if name = ''__proto__'' then InheritedPrototype
                else Undefined)"

text \<open>
  What \<open>getExamSpecificKeywords\<close> returns: a list of keywords, or a value that is
  no array (an inherited function, or the prototype object).
\<close>

datatype keywords_value = KeywordList "string list" | NotIterable

definition getExamSpecificKeywords :: "string \<Rightarrow> string option \<Rightarrow> keywords_value" where
  "getExamSpecificKeywords ex sub =
     (let key = (if truthy sub then or_empty sub else ''_default'') in
      case get_property EXAM_KEYWORD_MAP ex of
        Undefined \<Rightarrow> KeywordList []
      | Own (Flat ks) \<Rightarrow> KeywordList ks
      | Own (Nested table) \<Rightarrow>
          (case get_property table key of
             Own ks \<Rightarrow> KeywordList ks
           | InheritedFunction \<Rightarrow> NotIterable
           | InheritedPrototype \<Rightarrow> NotIterable
           | Undefined \<Rightarrow>
               (case get_property table ''_default'' of
                  Own ks \<Rightarrow> KeywordList ks
                | InheritedFunction \<Rightarrow> NotIterable
                | InheritedPrototype \<Rightarrow> NotIterable
                | Undefined \<Rightarrow> KeywordList []))
      | InheritedFunction \<Rightarrow> NotIterable
      | InheritedPrototype \<Rightarrow>
          (if key \<in> set prototype_functions then NotIterable else KeywordList []))"

text \<open>\<open>[...new Set(xs)]\<close>: the elements of \<open>xs\<close> in the order of their first occurrence.\<close>

definition set_add :: "'a list \<Rightarrow> 'a \<Rightarrow> 'a list" where
  "set_add s x = (if x \<in> set s then s else s @ [x])"

definition new_Set :: "'a list \<Rightarrow> 'a list" where
  "new_Set xs = foldl set_add [] xs"

text \<open>\<open>xs.filter(Boolean)\<close> on optional strings, after \<open>?.toLowerCase()\<close>.\<close>

definition lowered :: "string option \<Rightarrow> string option" where
  "lowered v = map_option toLowerCase v"

definition filter_Boolean :: "string option list \<Rightarrow> string list" where
  "filter_Boolean xs = map or_empty (filter truthy xs)"

definition hierarchicalKeywords :: "question \<Rightarrow> string list" where
  "hierarchicalKeywords q =
     filter_Boolean
       ([lowered (exam q), lowered (subExam q), lowered (section_of q), lowered (category q),
         lowered (topic q), lowered (qtype q), lowered (difficulty q)]
        @ map (\<lambda>t. Some (toLowerCase t)) (case tags q of None \<Rightarrow> [] | Some ts \<Rightarrow> ts))"

definition examKeywords :: "question \<Rightarrow> keywords_value" where
  "examKeywords q =
     (if truthy (exam q) then getExamSpecificKeywords (or_empty (exam q)) (subExam q)
      else KeywordList [])"

text \<open>
  The two \<open>TypeError\<close>s of this code: spreading a value that is no array into the
  keyword list (line 63), and reading \<open>length\<close> of a missing map entry (line 88).
\<close>

datatype type_error = NotIterableError | UndefinedPropertyError

definition generateKeywords :: "question \<Rightarrow> type_error + string list" where
  "generateKeywords q =
     (case examKeywords q of
        NotIterable \<Rightarrow> Inl NotIterableError
      | KeywordList ks \<Rightarrow> Inr (new_Set (hierarchicalKeywords q @ ks @ UNIVERSAL_KEYWORDS)))"

text \<open>A name that is no property of \<open>Object.prototype\<close>.\<close>

definition ordinary_name :: "string option \<Rightarrow> bool" where
  "ordinary_name v = (or_empty v \<notin> set prototype_functions \<and> or_empty v \<noteq> ''__proto__'')"

definition q_cat :: question where
  "q_cat = \<lparr>questionNumber = 3, statement = Text ''What is 2+2?'',
     qtype = Some ''MCQ'', exam = Some ''CAT'', subExam = None, section_of = Some ''Quant'',
     difficulty = Some ''Easy'', tags = Some [''PYQ'', ''cat''], category = Some ''Quant'',
     topic = Some ''Arithmetic'', updatedAt = ''2024-01-01''\<rparr>"

definition q_png :: question where
  "q_png = \<lparr>questionNumber = 11, statement = Text ''diagram.png'',
     qtype = Some ''MCQ'', exam = Some ''CAT'', subExam = None, section_of = None,
     difficulty = Some ''Easy'', tags = None, category = None,
     topic = Some ''Geometry'', updatedAt = ''2024-01-01''\<rparr>"

definition q_http :: question where
  "q_http = \<lparr>questionNumber = 12, statement = Text ''https://res.cloudinary.com/a/q12.png'',
     qtype = Some ''MCQ'', exam = Some ''CAT'', subExam = None, section_of = None,
     difficulty = Some ''Easy'', tags = None, category = None,
     topic = Some ''Geometry'', updatedAt = ''2024-01-01''\<rparr>"

definition q_long :: question where
  "q_long = \<lparr>questionNumber = 13,
     statement = Text ''A train running at a uniform speed crosses a platform of length two hundred metres in thirty seconds and a man standing on the platform in ten seconds'',
     qtype = Some ''Integer'', exam = Some ''Railways'', subExam = None, section_of = None,
     difficulty = Some ''Medium'', tags = None, category = None,
     topic = Some ''Time Speed and Distance'', updatedAt = ''2024-01-01''\<rparr>"

text \<open>
  The exam-specific keywords as the specification describes them: looked up by the
  exam name, then, in a nested table, by the sub-exam, with \<open>_default\<close> for a
  sub-exam that is missing or not in the table.
\<close>

definition curated_keywords :: "question \<Rightarrow> string list" where
  "curated_keywords q =
     (if \<not> truthy (exam q) then []
      else case map_of EXAM_KEYWORD_MAP (or_empty (exam q)) of
             None \<Rightarrow> []
           | Some (Flat ks) \<Rightarrow> ks
           | Some (Nested table) \<Rightarrow>
               (case map_of table (if truthy (subExam q) then or_empty (subExam q) else ''_default'') of
                  Some ks \<Rightarrow> ks
                | None \<Rightarrow> (case map_of table ''_default'' of Some ks \<Rightarrow> ks | None \<Rightarrow> [])))"

section \<open>Maps of the host language, slug assignment and indexes\<close>

text \<open>
  A \<open>Map\<close> is the list of its entries in insertion order: \<open>m.get(k)\<close> is
  \<^const>\<open>map_of\<close>, and \<open>m.set(k, v)\<close> is \<^const>\<open>AList.update\<close>, which replaces the
  value of a key in place and appends an entry for a new key.

  \<open>push_to_bucket\<close> is the pattern
  \<open>if (!m.has(k)) m.set(k, []); m.get(k)!.push(x)\<close>. The last branch stands for a
  \<open>get\<close> that finds nothing; it is never taken, since the key has just been set.
\<close>

definition push_to_bucket :: "('k \<times> 'v list) list \<Rightarrow> 'k \<Rightarrow> 'v \<Rightarrow> ('k \<times> 'v list) list" where
  "push_to_bucket m k x =
     (let m1 = (if map_of m k = None then AList.update k [] m else m)
      in case map_of m1 k of
           Some bucket \<Rightarrow> AList.update k (bucket @ [x]) m1
         | None \<Rightarrow> m1)"

text \<open>\<open>xs.indexOf(x)\<close>: the first index at which \<open>x\<close> occurs, or \<open>-1\<close>.\<close>

fun indexOf :: "int list \<Rightarrow> int \<Rightarrow> int" where
  "indexOf [] x = - 1"
| "indexOf (y # ys) x =
     (if y = x then 0 else (let i = indexOf ys x in if i < 0 then - 1 else i + 1))"

text \<open>First pass of \<open>generateAllSlugs\<close>: the question numbers of every base slug.\<close>

definition baseSlugCounts :: "question list \<Rightarrow> (string \<times> int list) list" where
  "baseSlugCounts questions =
     foldl (\<lambda>m q. push_to_bucket m (buildBaseSlug q) (questionNumber q)) [] questions"

text \<open>
  Second pass, for one question: \<open>None\<close> is the \<open>TypeError\<close> of reading \<open>length\<close>
  of a missing entry. \<open>[...questionNumbers].sort((a, b) => a - b)\<close> is \<^const>\<open>sort\<close>.
\<close>

definition final_slug :: "(string \<times> int list) list \<Rightarrow> question \<Rightarrow> string option" where
  "final_slug counts q =
     (let baseSlug = buildBaseSlug q in
      case map_of counts baseSlug of
        None \<Rightarrow> None
      | Some questionNumbers \<Rightarrow>
          Some (if length questionNumbers = 1 then baseSlug
                else (let sortedNumbers = sort questionNumbers;
                          index = indexOf sortedNumbers (questionNumber q) + 1
                      in baseSlug @ ''-'' @ numberToString index)))"

fun assign_slugs ::
  "(string \<times> int list) list \<Rightarrow> question list \<Rightarrow> (int \<times> string) list \<Rightarrow> (int \<times> string) list option" where
  "assign_slugs counts [] slugMap = Some slugMap"
| "assign_slugs counts (q # qs) slugMap =
     (case final_slug counts q of
        None \<Rightarrow> None
      | Some slug \<Rightarrow> assign_slugs counts qs (AList.update (questionNumber q) slug slugMap))"

definition generateAllSlugs :: "question list \<Rightarrow> (int \<times> string) list option" where
  "generateAllSlugs questions = assign_slugs (baseSlugCounts questions) questions []"

definition generateSlug :: "question \<Rightarrow> (int \<times> string) list option \<Rightarrow> string" where
  "generateSlug q slugMap =
     (case slugMap of
        Some m \<Rightarrow> (case map_of m (questionNumber q) of
                     Some s \<Rightarrow> if s \<noteq> [] then s else question_fallback q
                   | None \<Rightarrow> question_fallback q)
      | None \<Rightarrow>
          if \<not> statement_truthy (statement q) \<or> \<not> truthy (exam q) \<or> \<not> truthy (topic q)
          then question_fallback q
          else buildBaseSlug q)"

text \<open>
  The numbers that share the base slug of \<open>q\<close> in ascending order, and whether
  another question of the list shares it.
\<close>

definition colliding_numbers :: "question list \<Rightarrow> question \<Rightarrow> int list" where
  "colliding_numbers qs q =
     sort (map questionNumber (filter (\<lambda>p. buildBaseSlug p = buildBaseSlug q) qs))"

definition shares_base_slug :: "question list \<Rightarrow> question \<Rightarrow> bool" where
  "shares_base_slug qs q = list_ex (\<lambda>p. p \<noteq> q \<and> buildBaseSlug p = buildBaseSlug q) qs"

subsection \<open>Index builder\<close>

record indexes =
  byTopic :: "(string \<times> question list) list"
  byCategory :: "(string \<times> question list) list"
  byExam :: "(string \<times> question list) list"
  byExamAndTopic :: "(string \<times> question list) list"
  byQuestionNumber :: "(int \<times> question) list"

definition empty_indexes :: indexes where
  "empty_indexes = \<lparr>byTopic = [], byCategory = [], byExam = [], byExamAndTopic = [],
     byQuestionNumber = []\<rparr>"

definition index_question :: "indexes \<Rightarrow> question \<Rightarrow> indexes" where
  "index_question ix q =
     (let ix1 = ix\<lparr>byQuestionNumber := AList.update (questionNumber q) q (byQuestionNumber ix)\<rparr>;
          ix2 = (if truthy (topic q)
                 then ix1\<lparr>byTopic := push_to_bucket (byTopic ix1) (or_empty (topic q)) q\<rparr>
                 else ix1);
          ix3 = (if truthy (category q)
                 then ix2\<lparr>byCategory := push_to_bucket (byCategory ix2) (or_empty (category q)) q\<rparr>
                 else ix2)
      in if truthy (exam q)
         then (let ix4 = ix3\<lparr>byExam := push_to_bucket (byExam ix3) (or_empty (exam q)) q\<rparr>
               in if truthy (topic q)
                  then ix4\<lparr>byExamAndTopic :=
                         push_to_bucket (byExamAndTopic ix4)
                           (or_empty (exam q) @ ''::'' @ or_empty (topic q)) q\<rparr>
                  else ix4)
         else ix3)"

definition buildQuestionIndexes :: "question list \<Rightarrow> indexes" where
  "buildQuestionIndexes questions = foldl index_question empty_indexes questions"

text \<open>
  The tables as the specification describes them: a question is in the bucket of
  every key field it has, buckets keep the order of the list, and keys stand in the
  order in which they first occur.
\<close>

definition grouped :: "('a \<Rightarrow> 'k option) \<Rightarrow> ('a \<Rightarrow> 'v) \<Rightarrow> 'a list \<Rightarrow> ('k \<times> 'v list) list" where
  "grouped key val xs =
     map (\<lambda>k. (k, map val (filter (\<lambda>x. key x = Some k) xs))) (new_Set (List.map_filter key xs))"

definition topic_key :: "question \<Rightarrow> string option" where
  "topic_key q = (if truthy (topic q) then topic q else None)"

definition category_key :: "question \<Rightarrow> string option" where
  "category_key q = (if truthy (category q) then category q else None)"

definition exam_key :: "question \<Rightarrow> string option" where
  "exam_key q = (if truthy (exam q) then exam q else None)"

definition exam_topic_key :: "question \<Rightarrow> string option" where
  "exam_topic_key q =
     (if truthy (exam q) \<and> truthy (topic q)
      then Some (or_empty (exam q) @ ''::'' @ or_empty (topic q)) else None)"

definition spec_indexes :: "question list \<Rightarrow> indexes" where
  "spec_indexes qs =
     \<lparr>byTopic = grouped topic_key (\<lambda>q. q) qs,
      byCategory = grouped category_key (\<lambda>q. q) qs,
      byExam = grouped exam_key (\<lambda>q. q) qs,
      byExamAndTopic = grouped exam_topic_key (\<lambda>q. q) qs,
      byQuestionNumber =
        map (\<lambda>n. (n, last (filter (\<lambda>q. questionNumber q = n) qs)))
          (new_Set (map questionNumber qs))\<rparr>"

definition q_cat9 :: question where
  "q_cat9 = \<lparr>questionNumber = 9, statement = Text ''What is 2+2?'',
     qtype = Some ''MCQ'', exam = Some ''CAT'', subExam = None, section_of = None,
     difficulty = Some ''Easy'', tags = None, category = None,
     topic = Some ''Arithmetic'', updatedAt = ''2024-06-01''\<rparr>"

section \<open>Remote question fetcher\<close>

text \<open>
  What one page request yields: \<open>fetch\<close> rejects, the response is not \<open>ok\<close> (with
  its status), \<open>response.json()\<close> rejects, the body has no array \<open>questions\<close>, or
  the body has the list of questions. The backend is a function from the page number
  to what the request for that page yields.
\<close>

datatype page_response = Rejected | Status nat | BadJson | Malformed | Questions "question list"

datatype fetch_error = NetworkError | HttpError nat | JsonError | InvalidFormat

text \<open>
  \<open>maxQuestions\<close> is an optional number; it limits the fetch when it is truthy, that
  is when it is given and not zero.
\<close>

definition limited :: "int option \<Rightarrow> bool" where
  "limited maxQuestions = (case maxQuestions of None \<Rightarrow> False | Some n \<Rightarrow> n \<noteq> 0)"

definition limit_value :: "int option \<Rightarrow> int" where
  "limit_value maxQuestions = (case maxQuestions of None \<Rightarrow> 0 | Some n \<Rightarrow> n)"

definition reached_limit :: "int option \<Rightarrow> question list \<Rightarrow> bool" where
  "reached_limit maxQuestions allQuestions =
     (limited maxQuestions \<and> int (length allQuestions) \<ge> limit_value maxQuestions)"

text \<open>\<open>xs.slice(0, e)\<close>: a negative end counts from the end of the list.\<close>

definition slice0 :: "'a list \<Rightarrow> int \<Rightarrow> 'a list" where
  "slice0 xs e = (if e < 0 then take (nat (int (length xs) + e)) xs else take (nat e) xs)"

text \<open>
  The loop of \<open>fetchLogic\<close>, lines 85 to 119, from the questions collected so far
  and the next page number. It ends with the error thrown or with all questions
  collected; a backend whose pages all hold 1000 questions keeps an unlimited fetch
  running for ever, and then there is no result.
\<close>

partial_function (option) fetch_pages ::
  "int option \<Rightarrow> (nat \<Rightarrow> page_response) \<Rightarrow> question list \<Rightarrow> nat \<Rightarrow> (fetch_error + question list) option" where
  "fetch_pages maxQuestions backend allQuestions page =
     (case backend page of
        Rejected \<Rightarrow> Some (Inl NetworkError)
      | Status code \<Rightarrow> Some (Inl (HttpError code))
      | BadJson \<Rightarrow> Some (Inl JsonError)
      | Malformed \<Rightarrow> Some (Inl InvalidFormat)
      | Questions qs \<Rightarrow>
          (if reached_limit maxQuestions (allQuestions @ qs) then Some (Inr (allQuestions @ qs))
           else if length qs = 1000
                then fetch_pages maxQuestions backend (allQuestions @ qs) (page + 1)
                else Some (Inr (allQuestions @ qs))))"

declare fetch_pages.simps [code]

text \<open>
  The state of the module: the arrays of questions that exist, each at its address
  (an index of \<open>arrays\<close>), the cached result \<open>questionsCache\<close>, a reference to an
  array or \<open>null\<close>, and the cached promise \<open>fetchPromise\<close>, a promise or \<open>null\<close>. A
  promise is pending, or fulfilled with a reference to an array; a rejected promise
  is never kept, since the handler of line 136 sets \<open>fetchPromise\<close> to \<open>null\<close> when it
  rejects. Calls run one after the other, each to its end.
\<close>

datatype promise = Pending | Fulfilled nat

record fetcher_state =
  arrays :: "question list list"
  questionsCache :: "nat option"
  fetchPromise :: "promise option"

definition initial_state :: fetcher_state where
  "initial_state = \<lparr>arrays = [], questionsCache = None, fetchPromise = None\<rparr>"

text \<open>Lines 73 to 131: the loop, the trimming to the limit, and the caching of the result.\<close>

definition fetchLogic ::
  "int option \<Rightarrow> (nat \<Rightarrow> page_response) \<Rightarrow> fetcher_state \<Rightarrow> ((fetch_error + nat) \<times> fetcher_state) option" where
  "fetchLogic maxQuestions backend s =
     (case fetch_pages maxQuestions backend [] 1 of
        None \<Rightarrow> None
      | Some (Inl e) \<Rightarrow> Some (Inl e, s)
      | Some (Inr allQuestions) \<Rightarrow>
          (let a = length (arrays s) in
           if limited maxQuestions
           then Some (Inr a, s\<lparr>arrays := arrays s @ [slice0 allQuestions (limit_value maxQuestions)]\<rparr>)
           else Some (Inr a, s\<lparr>arrays := arrays s @ [allQuestions], questionsCache := Some a\<rparr>)))"

text \<open>
  Lines 62 to 71: what a call without limit finds in the caches and returns, the
  cached list (as a promise fulfilled with it) or the kept promise.
\<close>

definition cached_result :: "int option \<Rightarrow> fetcher_state \<Rightarrow> promise option" where
  "cached_result maxQuestions s =
     (if questionsCache s \<noteq> None \<and> \<not> limited maxQuestions
      then map_option Fulfilled (questionsCache s)
      else if fetchPromise s \<noteq> None \<and> \<not> limited maxQuestions then fetchPromise s
      else None)"

text \<open>
  Line 135: a call without limit stores the promise of its fetch in \<open>fetchPromise\<close>
  before the first page arrives; the pages are fetched in that state.
\<close>

definition in_flight :: "fetcher_state \<Rightarrow> fetcher_state" where
  "in_flight s = s\<lparr>fetchPromise := Some Pending\<rparr>"

text \<open>
  The whole call. A caller that is handed a promise that is pending when the call
  starts waits for a fetch that no call is running, so it gets no result. When the
  fetch of a call without limit fails, the handler of line 136 resets \<open>fetchPromise\<close>;
  when it succeeds, the stored promise is fulfilled with the list.
\<close>

definition fetchAllQuestions ::
  "int option \<Rightarrow> (nat \<Rightarrow> page_response) \<Rightarrow> fetcher_state \<Rightarrow> ((fetch_error + nat) \<times> fetcher_state) option" where
  "fetchAllQuestions maxQuestions backend s =
     (case cached_result maxQuestions s of
        Some (Fulfilled a) \<Rightarrow> Some (Inr a, s)
      | Some Pending \<Rightarrow> None
      | None \<Rightarrow>
          if \<not> limited maxQuestions
          then (case fetchLogic maxQuestions backend (in_flight s) of
                  None \<Rightarrow> None
                | Some (Inl e, s1) \<Rightarrow> Some (Inl e, s1\<lparr>fetchPromise := None\<rparr>)
                | Some (Inr a, s1) \<Rightarrow> Some (Inr a, s1\<lparr>fetchPromise := Some (Fulfilled a)\<rparr>))
          else fetchLogic maxQuestions backend s)"

text \<open>What a page request must yield for the fetch to throw.\<close>

definition response_error :: "page_response \<Rightarrow> fetch_error option" where
  "response_error r =
     (case r of
        Rejected \<Rightarrow> Some NetworkError
      | Status code \<Rightarrow> Some (HttpError code)
      | BadJson \<Rightarrow> Some JsonError
      | Malformed \<Rightarrow> Some InvalidFormat
      | Questions qs \<Rightarrow> None)"

section \<open>Sitemap assembler\<close>

text \<open>
  The SEO record with its slug, title, keywords (\<open>keyword_list\<close> here) and canonical
  URL; the description, the image and the schema object are left out. Then the batch
  of line 295, which stops at the first \<open>TypeError\<close>.
\<close>

record question_seo =
  slug :: string
  title :: string
  keyword_list :: "string list"
  canonical :: string

definition generateQuestionSEO :: "question \<Rightarrow> (int \<times> string) list \<Rightarrow> type_error + question_seo" where
  "generateQuestionSEO q slugMap =
     (case generateKeywords q of
        Inl e \<Rightarrow> Inl e
      | Inr ks \<Rightarrow>
          Inr \<lparr>slug = generateSlug q (Some slugMap), title = generateTitle q, keyword_list = ks,
               canonical = ''https://aptidude.in/questions/'' @ generateSlug q (Some slugMap)\<rparr>)"

fun seo_loop ::
  "(int \<times> string) list \<Rightarrow> question list \<Rightarrow> (int \<times> question_seo) list
     \<Rightarrow> type_error + (int \<times> question_seo) list" where
  "seo_loop slugMap [] seoMap = Inr seoMap"
| "seo_loop slugMap (q # qs) seoMap =
     (case generateQuestionSEO q slugMap of
        Inl e \<Rightarrow> Inl e
      | Inr seo \<Rightarrow> seo_loop slugMap qs (AList.update (questionNumber q) seo seoMap))"

definition generateAllQuestionSEO :: "question list \<Rightarrow> type_error + (int \<times> question_seo) list" where
  "generateAllQuestionSEO questions =
     (case generateAllSlugs questions of
        None \<Rightarrow> Inl UndefinedPropertyError
      | Some slugMap \<Rightarrow> seo_loop slugMap questions [])"

text \<open>
  \<open>GET\<close> of \<open>sitemap.xml.ts\<close>, up to the text of the document: the model returns the
  question entries of the sitemap in document order, each with its slug and the
  \<open>updatedAt\<close> it is dated with, and the state of the module. The sections before
  the question entries are built from constants and from the keys of the indexes and
  change nothing. \<open>new Date(s).getTime()\<close> is the parameter \<open>getTime\<close>. The call
  \<open>questions.sort(...)\<close> of line 123 sorts the array in place: the array at the
  address that \<open>fetchAllQuestions\<close> returned is replaced by the sorted one. The sort
  is stable, as \<^const>\<open>sort_key\<close> is.
\<close>

datatype get_error = FetchFailure fetch_error | SeoFailure type_error

definition GET ::
  "(string \<Rightarrow> int) \<Rightarrow> (nat \<Rightarrow> page_response) \<Rightarrow> fetcher_state
     \<Rightarrow> ((get_error + (string \<times> string) list) \<times> fetcher_state) option" where
  "GET getTime backend s =
     (case fetchAllQuestions None backend s of
        None \<Rightarrow> None
      | Some (Inl e, s1) \<Rightarrow> Some (Inl (FetchFailure e), s1)
      | Some (Inr a, s1) \<Rightarrow>
          (let questions = arrays s1 ! a;
               indexes = buildQuestionIndexes questions
           in case generateAllQuestionSEO questions of
                Inl e \<Rightarrow> Some (Inl (SeoFailure e), s1)
              | Inr seoMap \<Rightarrow>
                  (let sorted = sort_key (\<lambda>q. - getTime (updatedAt q)) questions;
                       s2 = s1\<lparr>arrays := (arrays s1)[a := sorted]\<rparr>;
                       questionUrls =
                         concat (map (\<lambda>q. case map_of seoMap (questionNumber q) of
                                             None \<Rightarrow> []
                                           | Some seo \<Rightarrow> [(slug seo, updatedAt q)]) sorted)
                   in Some (Inr questionUrls, s2))))"

text \<open>The time in milliseconds of the two dates used below.\<close>

definition getTime_sample :: "string \<Rightarrow> int" where
  "getTime_sample s =
     (if s = ''2024-06-01'' then 1717200000000
      else if s = ''2024-01-01'' then 1704067200000 else 0)"

text \<open>
  The fetch gets as far as requesting page \<open>p\<close>: every page before it held 1000
  questions, and the limit was not reached after it.
\<close>

definition requests_page :: "int option \<Rightarrow> (nat \<Rightarrow> page_response) \<Rightarrow> nat \<Rightarrow> bool" where
  "requests_page maxQuestions backend p =
     (\<forall>i \<in> {1..<p}. (\<exists>qs. backend i = Questions qs \<and> length qs = 1000)
        \<and> \<not> (limited maxQuestions \<and> 1000 * int i \<ge> limit_value maxQuestions))"

text \<open>The state after a fetch without limit has cached the one question of a short page.\<close>

definition cached_state :: fetcher_state where
  "cached_state = \<lparr>arrays = [[q_hcf]], questionsCache = Some 0, fetchPromise = Some (Fulfilled 0)\<rparr>"

section \<open>Properties of the slug builder\<close>

lemma length_substring0: "length (substring0 s n) \<le> nat n"
  by (simp add: substring0_def)

lemma length_joined_slug: "length (joined_slug q) \<le> 143"
proof -
  have a: "length (statementSlug_of q) \<le> 50"
    unfolding statementSlug_of_def using length_substring0 [of _ 50] by simp
  have b: "length (examSlug_of q) \<le> 30"
    unfolding examSlug_of_def using length_substring0 [of _ 30] by simp
  have c: "length (subExamSlug_of q) \<le> 30"
    unfolding subExamSlug_of_def using length_substring0 [of _ 30] by simp
  have d: "length (topicSlug_of q) \<le> 30"
    unfolding topicSlug_of_def using length_substring0 [of _ 30] by simp
  show ?thesis
    using a b c d by (simp add: joined_slug_def slug_parts_def)
qed

lemma capped_slug_eq: "capped_slug q = joined_slug q"
  using length_joined_slug [of q] by (simp add: capped_slug_def)

lemma collapse_hyphens_Cons: "\<exists>r. collapse_hyphens (b # cs) = b # r"
  by (induction cs arbitrary: b) auto

lemma set_collapse_hyphens: "set (collapse_hyphens s) \<subseteq> set s"
  by (induction s rule: collapse_hyphens.induct) auto

lemma length_collapse_hyphens: "length (collapse_hyphens s) \<le> length s"
  by (induction s rule: collapse_hyphens.induct) auto

lemma single_collapse_hyphens: "single_hyphens (collapse_hyphens s)"
proof (induction s rule: collapse_hyphens.induct)
  case (1 a b cs)
  obtain r where r: "collapse_hyphens (b # cs) = b # r"
    using collapse_hyphens_Cons by blast
  with 1 show ?case by auto
qed auto

lemma single_hyphens_snoc2: "single_hyphens (xs @ [a, b]) \<Longrightarrow> a \<noteq> CHR ''-'' \<or> b \<noteq> CHR ''-''"
  by (induction xs rule: single_hyphens.induct) auto

lemma single_hyphens_tl: "single_hyphens (a # cs) \<Longrightarrow> single_hyphens cs"
  by (cases cs) auto

lemma strip_edge_hyphens_ends:
  assumes s: "single_hyphens s" and ne: "strip_edge_hyphens s \<noteq> []"
  shows "hd (strip_edge_hyphens s) \<noteq> CHR ''-'' \<and> last (strip_edge_hyphens s) \<noteq> CHR ''-''"
proof -
  define t where "t = (case s of [] \<Rightarrow> [] | c # cs \<Rightarrow> if c = CHR ''-'' then cs else s)"
  have r: "strip_edge_hyphens s = (if t \<noteq> [] \<and> last t = CHR ''-'' then butlast t else t)"
    by (simp add: strip_edge_hyphens_def t_def)
  have t1: "single_hyphens t"
    using s by (auto simp: t_def split: list.splits dest: single_hyphens_tl)
  have t2: "t \<noteq> [] \<Longrightarrow> hd t \<noteq> CHR ''-''"
  proof (cases s)
    case Nil
    then show "t \<noteq> [] \<Longrightarrow> hd t \<noteq> CHR ''-''" by (simp add: t_def)
  next
    case (Cons c cs)
    show "t \<noteq> [] \<Longrightarrow> hd t \<noteq> CHR ''-''"
      using s Cons by (cases cs) (auto simp: t_def)
  qed
  show ?thesis
  proof (cases "t \<noteq> [] \<and> last t = CHR ''-''")
    case False
    with r ne t2 show ?thesis by auto
  next
    case True
    then have rb: "strip_edge_hyphens s = butlast t" using r by simp
    with ne have "butlast t \<noteq> []" by simp
    then obtain xs a where t: "t = xs @ [a, CHR ''-'']"
      using True
      by (metis append_butlast_last_id append.assoc append_Cons append_Nil)
    have "a \<noteq> CHR ''-''" using t1 single_hyphens_snoc2 [of xs a "CHR ''-''"] t by auto
    moreover have "butlast t = xs @ [a]" using t by (simp add: butlast_append)
    moreover have "hd (xs @ [a]) \<noteq> CHR ''-''"
      using t2 t \<open>a \<noteq> CHR ''-''\<close> by (cases xs) auto
    ultimately show ?thesis using rb by simp
  qed
qed

lemma natToString_nonempty: "natToString n \<noteq> []"
  by (subst natToString.simps) simp

lemma natToString_length: "n < 10 ^ k \<Longrightarrow> length (natToString n) \<le> max 1 k"
proof (induction n arbitrary: k rule: natToString.induct)
  case (1 n)
  show ?case
  proof (cases "n < 10")
    case True
    then show ?thesis by (subst natToString.simps) simp
  next
    case False
    then obtain j where k: "k = Suc j" using "1.prems" by (cases k) auto
    have "n div 10 < 10 ^ j" using "1.prems" k by (simp add: less_mult_imp_div_less)
    then have "length (natToString (n div 10)) \<le> max 1 j" using "1.IH" False by simp
    moreover have "j \<ge> 1" using False "1.prems" k by (cases j) auto
    ultimately show ?thesis using False k by (subst natToString.simps) simp
  qed
qed

lemma digit_value_digit_char: "d < 10 \<Longrightarrow> digit_value (digit_char d) = d"
  by (simp add: digit_value_def digit_char_def)

lemma decimal_value_snoc: "decimal_value (s @ [c]) = 10 * decimal_value s + digit_value c"
  by (simp add: decimal_value_def)

lemma decimal_value_single: "decimal_value [c] = digit_value c"
  by (simp add: decimal_value_def)

lemma decimal_value_natToString: "decimal_value (natToString n) = n"
proof (induction n rule: natToString.induct)
  case (1 n)
  show ?case
  proof (cases "n < 10")
    case True
    then have "natToString n = [digit_char n]" by (subst natToString.simps) simp
    then show ?thesis using True by (simp only: decimal_value_single digit_value_digit_char)
  next
    case False
    then have ih: "decimal_value (natToString (n div 10)) = n div 10" using 1 by simp
    have m: "n mod 10 < 10" by simp
    have "natToString n = natToString (n div 10) @ [digit_char (n mod 10)]"
      using False by (subst natToString.simps) simp
    then have "decimal_value (natToString n) = 10 * (n div 10) + n mod 10"
      by (simp only: decimal_value_snoc ih digit_value_digit_char [OF m])
    then show ?thesis by simp
  qed
qed

lemma natToString_inj: "natToString m = natToString n \<Longrightarrow> m = n"
proof -
  assume a: "natToString m = natToString n"
  have "m = decimal_value (natToString m)" by (simp only: decimal_value_natToString)
  also have "\<dots> = decimal_value (natToString n)" by (simp only: a)
  also have "\<dots> = n" by (rule decimal_value_natToString)
  finally show ?thesis .
qed

lemma split_at_first_separator:
  "c \<notin> set a \<Longrightarrow> c \<notin> set b \<Longrightarrow> a @ c # x = b @ c # y \<Longrightarrow> a = b \<and> x = y"
proof (induction a arbitrary: b)
  case Nil
  then show ?case by (cases b) auto
next
  case (Cons h a)
  then show ?case by (cases b) auto
qed

lemma digit_char_digit: "d < 10 \<Longrightarrow> is_digit (digit_char d)"
  by (simp add: is_digit_def digit_char_def Let_def)

lemma natToString_digits: "\<forall>c \<in> set (natToString n). is_digit c"
proof (induction n rule: natToString.induct)
  case (1 n)
  show ?case
  proof (cases "n < 10")
    case True
    then show ?thesis by (subst natToString.simps) (simp add: digit_char_digit)
  next
    case False
    with 1 show ?thesis by (subst natToString.simps) (simp add: digit_char_digit)
  qed
qed

lemma is_digit_az09: "is_digit c \<Longrightarrow> is_az09 c"
  by (simp add: is_digit_def is_az09_def Let_def)

lemma natToString_az09: "\<forall>c \<in> set (natToString n). is_az09 c"
  using natToString_digits is_digit_az09 by blast

lemma not_digits: "\<not> is_digit CHR ''-''" "\<not> is_digit CHR ''e''" "\<not> is_digit CHR ''.''"
  "\<not> is_digit CHR ''+''"
  by (simp_all add: is_digit_def)

lemma set_strip_trailing_zeros: "set (strip_trailing_zeros ds) \<subseteq> set ds"
  unfolding strip_trailing_zeros_def using set_dropWhileD by fastforce

lemma strip_trailing_zeros_pad:
  "ds = strip_trailing_zeros ds @ replicate (length ds - length (strip_trailing_zeros ds)) CHR ''0''"
proof -
  let ?P = "\<lambda>c. c = CHR ''0''"
  have "rev (takeWhile ?P (rev ds) @ dropWhile ?P (rev ds)) = rev (rev ds)"
    by (simp only: takeWhile_dropWhile_id)
  then have d: "ds = strip_trailing_zeros ds @ rev (takeWhile ?P (rev ds))"
    by (simp only: strip_trailing_zeros_def rev_append rev_rev_ident)
  have "\<forall>c \<in> set (rev (takeWhile ?P (rev ds))). c = CHR ''0''"
    by (auto dest: set_takeWhileD)
  then have "replicate (length (rev (takeWhile ?P (rev ds)))) CHR ''0'' = rev (takeWhile ?P (rev ds))"
    by (rule replicate_length_same)
  then have r: "rev (takeWhile ?P (rev ds)) = replicate (length (rev (takeWhile ?P (rev ds)))) CHR ''0''"
    by (rule sym)
  have "length ds = length (strip_trailing_zeros ds) + length (rev (takeWhile ?P (rev ds)))"
    using arg_cong [OF d, of length] by simp
  then have "length (rev (takeWhile ?P (rev ds))) = length ds - length (strip_trailing_zeros ds)"
    by simp
  with d r show ?thesis by simp
qed

lemma set_mantissa: "set (mantissa sig) \<subseteq> set sig \<union> {CHR ''.''}"
  by (auto simp: mantissa_def split: list.splits if_splits)

lemma mantissa_inj: "mantissa a = mantissa b \<Longrightarrow> a = b"
  by (cases a; cases b) (auto simp: mantissa_def split: if_splits)

lemma mantissa_chars:
  "c \<in> set (mantissa (strip_trailing_zeros (natToString n))) \<Longrightarrow> is_digit c \<or> c = CHR ''.''"
  using set_mantissa set_strip_trailing_zeros natToString_digits by fastforce

lemma exponentForm_chars:
  "c \<in> set (exponentForm n) \<Longrightarrow> is_digit c \<or> c = CHR ''.'' \<or> c = CHR ''e'' \<or> c = CHR ''+''"
  using mantissa_chars [of c n] natToString_digits by (auto simp: exponentForm_def)

lemma exponentForm_has_e: "CHR ''e'' \<in> set (exponentForm n)"
  by (simp add: exponentForm_def)

lemma exponentForm_inj:
  assumes "exponentForm m = exponentForm n"
  shows "m = n"
proof -
  let ?M = "\<lambda>k. mantissa (strip_trailing_zeros (natToString k))"
  let ?E = "\<lambda>k. natToString (length (natToString k) - 1)"
  have e: "CHR ''e'' \<notin> set (?M k)" for k
  proof
    assume "CHR ''e'' \<in> set (?M k)"
    then have "is_digit CHR ''e'' \<or> CHR ''e'' = CHR ''.''" by (rule mantissa_chars)
    then show False using not_digits(2) by simp
  qed
  have "?M m @ CHR ''e'' # (CHR ''+'' # ?E m) = ?M n @ CHR ''e'' # (CHR ''+'' # ?E n)"
    using assms by (simp add: exponentForm_def)
  then have c: "?M m = ?M n \<and> CHR ''+'' # ?E m = CHR ''+'' # ?E n"
    by (rule split_at_first_separator [OF e e])
  from c have "?M m = ?M n" by (rule conjunct1)
  then have s: "strip_trailing_zeros (natToString m) = strip_trailing_zeros (natToString n)"
    by (rule mantissa_inj)
  from c have "?E m = ?E n" by simp
  then have "length (natToString m) - 1 = length (natToString n) - 1"
    by (rule natToString_inj)
  moreover have "length (natToString m) \<noteq> 0" "length (natToString n) \<noteq> 0"
    using natToString_nonempty by simp_all
  ultimately have l: "length (natToString m) = length (natToString n)" by linarith
  have "natToString m = strip_trailing_zeros (natToString m)
      @ replicate (length (natToString m) - length (strip_trailing_zeros (natToString m))) CHR ''0''"
    by (rule strip_trailing_zeros_pad)
  also have "\<dots> = strip_trailing_zeros (natToString n)
      @ replicate (length (natToString n) - length (strip_trailing_zeros (natToString n))) CHR ''0''"
    by (simp only: s l)
  also have "\<dots> = natToString n" by (rule strip_trailing_zeros_pad [symmetric])
  finally show ?thesis by (rule natToString_inj)
qed

lemma printMagnitude_small: "m < 10 ^ 21 \<Longrightarrow> printMagnitude m = natToString (nat m)"
  by (simp add: printMagnitude_def)

lemma printMagnitude_nonempty: "printMagnitude m \<noteq> []"
  by (simp add: printMagnitude_def natToString_nonempty exponentForm_def)

lemma printMagnitude_no_hyphen: "CHR ''-'' \<notin> set (printMagnitude m)"
proof
  assume a: "CHR ''-'' \<in> set (printMagnitude m)"
  show False
  proof (cases "m < 1000000000000000000000")
    case True
    then have "CHR ''-'' \<in> set (natToString (nat m))" using a by (simp add: printMagnitude_def)
    then show False using natToString_digits not_digits(1) by blast
  next
    case False
    then have "CHR ''-'' \<in> set (exponentForm (nat m))" using a by (simp add: printMagnitude_def)
    then show False using exponentForm_chars [of "CHR ''-''" "nat m"] not_digits(1) by simp
  qed
qed

lemma printMagnitude_last: "is_az09 (last (printMagnitude m))"
proof -
  have "\<And>k. is_az09 (last (natToString k))"
    using natToString_az09 natToString_nonempty last_in_set by blast
  then show ?thesis
    by (simp add: printMagnitude_def exponentForm_def natToString_nonempty)
qed

lemma printMagnitude_inj:
  assumes "0 \<le> m" and "0 \<le> n" and a: "printMagnitude m = printMagnitude n"
  shows "m = n"
proof -
  have ne: "\<And>k. CHR ''e'' \<notin> set (natToString k)"
    using natToString_digits not_digits(2) by blast
  have "nat m = nat n"
  proof (cases "m < 1000000000000000000000"; cases "n < 1000000000000000000000")
    assume "m < 1000000000000000000000" "n < 1000000000000000000000"
    with a have "natToString (nat m) = natToString (nat n)" by (simp add: printMagnitude_def)
    then show ?thesis by (rule natToString_inj)
  next
    assume "m < 1000000000000000000000" "\<not> n < 1000000000000000000000"
    with a have "natToString (nat m) = exponentForm (nat n)" by (simp add: printMagnitude_def)
    then show ?thesis using ne [of "nat m"] exponentForm_has_e [of "nat n"] by simp
  next
    assume "\<not> m < 1000000000000000000000" "n < 1000000000000000000000"
    with a have "exponentForm (nat m) = natToString (nat n)" by (simp add: printMagnitude_def)
    then show ?thesis using ne [of "nat n"] exponentForm_has_e [of "nat m"] by simp
  next
    assume "\<not> m < 1000000000000000000000" "\<not> n < 1000000000000000000000"
    with a have "exponentForm (nat m) = exponentForm (nat n)" by (simp add: printMagnitude_def)
    then show ?thesis by (rule exponentForm_inj)
  qed
  then show ?thesis using assms(1,2) by simp
qed

lemma numberToString_chars:
  "\<bar>i\<bar> < 10 ^ 21 \<Longrightarrow> \<forall>c \<in> set (numberToString i). is_slug_char c"
proof -
  assume a: "\<bar>i\<bar> < 10 ^ 21"
  have d: "\<And>k. \<forall>c \<in> set (natToString k). is_slug_char c"
    using natToString_az09 by (simp add: is_slug_char_def)
  show ?thesis
  proof (cases "i < 0")
    case True
    then have "- i < 10 ^ 21" using a by simp
    then have "printMagnitude (- i) = natToString (nat (- i))" by (rule printMagnitude_small)
    then show ?thesis using True d by (simp add: numberToString_def is_slug_char_def)
  next
    case False
    then have "i < 10 ^ 21" using a by simp
    then have "printMagnitude i = natToString (nat i)" by (rule printMagnitude_small)
    then show ?thesis using False d by (simp add: numberToString_def)
  qed
qed

lemma numberToString_last: "is_az09 (last (numberToString i))"
  using printMagnitude_last printMagnitude_nonempty by (simp add: numberToString_def)

lemma numberToString_nonempty: "numberToString i \<noteq> []"
  by (simp add: numberToString_def printMagnitude_nonempty)

lemma numberToString_length: "\<bar>i\<bar> < 10 ^ 21 \<Longrightarrow> length (numberToString i) \<le> 22"
proof -
  assume a: "\<bar>i\<bar> < 10 ^ 21"
  have l: "\<And>m. 0 \<le> m \<Longrightarrow> m < 10 ^ 21 \<Longrightarrow> length (printMagnitude m) \<le> 21"
  proof -
    fix m :: int assume m: "0 \<le> m" "m < 10 ^ 21"
    then have "nat m < 10 ^ 21" by (simp add: nat_less_iff)
    then have "length (natToString (nat m)) \<le> max 1 21" by (rule natToString_length)
    then show "length (printMagnitude m) \<le> 21" using printMagnitude_small [OF m(2)] by simp
  qed
  show ?thesis
  proof (cases "i < 0")
    case True
    then have "length (printMagnitude (- i)) \<le> 21" using a by (intro l) simp_all
    then show ?thesis using True by (simp add: numberToString_def)
  next
    case False
    then have "length (printMagnitude i) \<le> 21" using a by (intro l) simp_all
    then show ?thesis using False by (simp add: numberToString_def)
  qed
qed

lemma numberToString_inj: "numberToString i = numberToString j \<Longrightarrow> i = j"
proof -
  assume a: "numberToString i = numberToString j"
  have h: "\<And>n. hd (printMagnitude n) \<noteq> CHR ''-''"
    using printMagnitude_no_hyphen printMagnitude_nonempty hd_in_set by metis
  show ?thesis
  proof (cases "i < 0"; cases "j < 0")
    assume n: "i < 0" "j < 0"
    with a have "printMagnitude (- i) = printMagnitude (- j)" by (simp add: numberToString_def)
    then have "- i = - j" using n by (intro printMagnitude_inj) simp_all
    then show ?thesis by simp
  next
    assume "i < 0" "\<not> j < 0"
    with a have "CHR ''-'' # printMagnitude (- i) = printMagnitude j"
      by (simp add: numberToString_def)
    then show ?thesis using h [of j] by (metis list.sel(1))
  next
    assume "\<not> i < 0" "j < 0"
    with a have "printMagnitude i = CHR ''-'' # printMagnitude (- j)"
      by (simp add: numberToString_def)
    then show ?thesis using h [of i] by (metis list.sel(1))
  next
    assume n: "\<not> i < 0" "\<not> j < 0"
    with a have "printMagnitude i = printMagnitude j" by (simp add: numberToString_def)
    then show ?thesis using n by (intro printMagnitude_inj) simp_all
  qed
qed

lemma numberToString_tl_no_hyphen: "CHR ''-'' \<notin> set (tl (numberToString i))"
proof (cases "i < 0")
  case True
  then show ?thesis using printMagnitude_no_hyphen [of "- i"] by (simp add: numberToString_def)
next
  case False
  have "CHR ''-'' \<notin> set (printMagnitude i)" by (rule printMagnitude_no_hyphen)
  then have "CHR ''-'' \<notin> set (tl (printMagnitude i))" by (cases "printMagnitude i") auto
  then show ?thesis using False by (simp add: numberToString_def)
qed

lemma numberToString_nat_no_hyphen: "0 \<le> i \<Longrightarrow> CHR ''-'' \<notin> set (numberToString i)"
  using printMagnitude_no_hyphen by (simp add: numberToString_def)

lemma digit_chars:
  "digit_char 0 = CHR ''0''" "digit_char 1 = CHR ''1''" "digit_char 2 = CHR ''2''"
  "digit_char 3 = CHR ''3''" "digit_char 4 = CHR ''4''" "digit_char 5 = CHR ''5''"
  "digit_char 6 = CHR ''6''" "digit_char 7 = CHR ''7''" "digit_char 8 = CHR ''8''"
  "digit_char 9 = CHR ''9''" "digit_char (Suc 0) = CHR ''1''"
  by code_simp+

lemma numberToString_1e21: "numberToString 1000000000000000000000 = ''1e+21''"
  by (simp add: numberToString_def printMagnitude_def exponentForm_def
      strip_trailing_zeros_def mantissa_def natToString.simps digit_chars)

lemma final_sanitize_chars: "\<forall>c \<in> set (final_sanitize s). is_slug_char c"
proof -
  let ?m = "map (\<lambda>c. if is_slug_char c then c else CHR ''-'') s"
  have m: "\<forall>c \<in> set ?m. is_slug_char c"
    by (auto simp: is_slug_char_def)
  have "set (strip_edge_hyphens (collapse_hyphens ?m)) \<subseteq> set (collapse_hyphens ?m)"
    by (auto simp: strip_edge_hyphens_def Let_def split: list.splits if_splits dest: in_set_butlastD)
  also have "\<dots> \<subseteq> set ?m" by (rule set_collapse_hyphens)
  finally show ?thesis using m unfolding final_sanitize_def by blast
qed

lemma final_sanitize_ends:
  "final_sanitize s \<noteq> [] \<Longrightarrow> hd (final_sanitize s) \<noteq> CHR ''-'' \<and> last (final_sanitize s) \<noteq> CHR ''-''"
  unfolding final_sanitize_def by (rule strip_edge_hyphens_ends [OF single_collapse_hyphens])

lemma length_strip_edge_hyphens: "length (strip_edge_hyphens s) \<le> length s"
  by (auto simp: strip_edge_hyphens_def Let_def split: list.splits)

lemma length_final_sanitize: "length (final_sanitize s) \<le> length s"
proof -
  have "length (final_sanitize s) \<le> length (collapse_hyphens (map (\<lambda>c. if is_slug_char c then c else CHR ''-'') s))"
    unfolding final_sanitize_def by (rule length_strip_edge_hyphens)
  also have "\<dots> \<le> length (map (\<lambda>c. if is_slug_char c then c else CHR ''-'') s)"
    by (rule length_collapse_hyphens)
  finally show ?thesis by simp
qed

lemma question_fallback_chars:
  "\<bar>questionNumber q\<bar> < 10 ^ 21 \<Longrightarrow> \<forall>c \<in> set (question_fallback q). is_slug_char c"
  using numberToString_chars [of "questionNumber q"]
  by (auto simp: question_fallback_def is_slug_char_def is_az09_def)

lemma question_fallback_ends:
  "question_fallback q \<noteq> [] \<and> hd (question_fallback q) \<noteq> CHR ''-'' \<and> last (question_fallback q) \<noteq> CHR ''-''"
  using numberToString_last [of "questionNumber q"] numberToString_nonempty [of "questionNumber q"]
  by (auto simp: question_fallback_def is_az09_def)

lemma question_fallback_length:
  "\<bar>questionNumber q\<bar> < 10 ^ 21 \<Longrightarrow> length (question_fallback q) \<le> 31"
  using numberToString_length [of "questionNumber q"] by (simp add: question_fallback_def)

lemma buildBaseSlug_cases:
  "buildBaseSlug q = question_fallback q \<or>
   (buildBaseSlug q = final_sanitize (joined_slug q) \<and> final_sanitize (joined_slug q) \<noteq> [])"
  by (simp add: buildBaseSlug_def capped_slug_eq Let_def)

lemma lower_char_not_az09: "\<not> is_alnum c \<Longrightarrow> \<not> is_az09 (lower_char c)"
  by (auto simp: is_alnum_def is_az09_def lower_char_def is_upper_def Let_def)

lemma no_az09_toLowerCase: "symbols_only s \<Longrightarrow> \<forall>c \<in> set (toLowerCase s). \<not> is_az09 c"
  by (auto simp: symbols_only_def toLowerCase_def list_all_iff lower_char_not_az09)

lemma trim_spaces: "\<forall>c \<in> set s. is_space c \<Longrightarrow> trim s = []"
  by (auto simp: trim_def dest: set_dropWhileD)

lemma set_spaces_to_hyphen: "c \<in> set (spaces_to_hyphen s) \<Longrightarrow> c = CHR ''-'' \<or> c \<in> set s"
  by (induction s rule: spaces_to_hyphen.induct) (auto split: if_splits dest: set_dropWhileD)

lemma set_join: "c \<in> set (join sep xs) \<Longrightarrow> c \<in> set sep \<or> (\<exists>x \<in> set xs. c \<in> set x)"
  by (induction sep xs rule: join.induct) auto

lemma startsWith_set: "startsWith s p \<Longrightarrow> set p \<subseteq> set s"
  unfolding startsWith_def by (metis set_take_subset)

lemma str_includes_set: "str_includes s p \<Longrightarrow> set p \<subseteq> set s"
proof (induction s p rule: str_includes.induct)
  case (1 p)
  then show ?case by simp
next
  case (2 c cs p)
  from "2.prems" have "startsWith (c # cs) p \<or> str_includes cs p" by simp
  then show ?case
  proof
    assume "startsWith (c # cs) p"
    then show ?thesis by (rule startsWith_set)
  next
    assume "str_includes cs p"
    then have "set p \<subseteq> set cs" by (rule "2.IH")
    then show ?thesis by auto
  qed
qed

lemma extension_here_az09: "extension_here s \<Longrightarrow> \<exists>c \<in> set s. is_az09 c"
proof -
  assume "extension_here s"
  then obtain e where e: "e \<in> set image_extensions" "startsWith s (CHR ''.'' # e)"
    by (auto simp: extension_here_def list_ex_iff)
  then have "set e \<subseteq> set s" using startsWith_set by fastforce
  moreover have "\<exists>c \<in> set e. is_az09 c"
    using e(1) by (auto simp: image_extensions_def is_az09_def)
  ultimately show ?thesis by blast
qed

lemma has_image_extension_az09: "has_image_extension s \<Longrightarrow> \<exists>c \<in> set s. is_az09 c"
proof (induction s)
  case Nil
  then show ?case by simp
next
  case (Cons c cs)
  from Cons.prems have "extension_here (c # cs) \<or> has_image_extension cs" by simp
  then show ?case
  proof
    assume "extension_here (c # cs)"
    then show ?thesis by (rule extension_here_az09)
  next
    assume "has_image_extension cs"
    then have "\<exists>c \<in> set cs. is_az09 c" by (rule Cons.IH)
    then show ?thesis by auto
  qed
qed

lemma isImageUrl_symbols: "symbols_only s \<Longrightarrow> \<not> isImageUrl (Text s)"
proof
  assume s: "symbols_only s" and i: "isImageUrl (Text s)"
  let ?l = "toLowerCase s"
  have n: "\<forall>c \<in> set ?l. \<not> is_az09 c" using s by (rule no_az09_toLowerCase)
  have h: "is_az09 CHR ''h''" and c: "is_az09 CHR ''c''" by (simp_all add: is_az09_def)
  from i consider "startsWith ?l ''http://''" | "startsWith ?l ''https://''"
    | "has_image_extension ?l" | "str_includes ?l ''cloudinary.com''"
    | "str_includes ?l ''res.cloudinary.com''"
    by (auto simp: isImageUrl_def Let_def split: if_splits)
  then show False
  proof cases
    case 1 then show False using startsWith_set [OF 1] n h by auto
  next
    case 2 then show False using startsWith_set [OF 2] n h by auto
  next
    case 3 then show False using has_image_extension_az09 n by blast
  next
    case 4 then show False using str_includes_set [OF 4] n c by auto
  next
    case 5 then show False using str_includes_set [OF 5] n c by auto
  qed
qed

lemma statementSlug_symbols:
  assumes "statement q = Text s" and "symbols_only s"
  shows "statementSlug_of q = []"
proof -
  have t: "statementText_of q = s"
    using assms isImageUrl_symbols by (simp add: statementText_of_def)
  have "\<forall>c \<in> set (filter (\<lambda>c. is_az09 c \<or> is_space c) (toLowerCase s)). is_space c"
    using no_az09_toLowerCase [OF assms(2)] by auto
  then have "trim (filter (\<lambda>c. is_az09 c \<or> is_space c) (toLowerCase s)) = []"
    by (rule trim_spaces)
  then show ?thesis by (simp add: statementSlug_of_def t substring0_def)
qed

lemma no_az09_spaces_to_hyphen:
  "\<forall>c \<in> set s. \<not> is_az09 c \<Longrightarrow> \<forall>c \<in> set (substring0 (spaces_to_hyphen s) n). \<not> is_az09 c"
proof
  fix c assume a: "\<forall>c \<in> set s. \<not> is_az09 c" and c: "c \<in> set (substring0 (spaces_to_hyphen s) n)"
  then have "c \<in> set (spaces_to_hyphen s)" by (auto simp: substring0_def dest: in_set_takeD)
  then have "c = CHR ''-'' \<or> c \<in> set s" by (rule set_spaces_to_hyphen)
  then show "\<not> is_az09 c" using a by (auto simp: is_az09_def)
qed

lemma joined_slug_symbols:
  assumes "statement q = Text s" and "symbols_only s" and "symbols_only (or_empty (exam q))"
    and "symbols_only (or_empty (topic q))" and "symbols_only (or_empty (subExam q))"
  shows "\<forall>c \<in> set (joined_slug q). \<not> is_az09 c"
proof
  fix c assume c: "c \<in> set (joined_slug q)"
  have e: "\<forall>c \<in> set (examSlug_of q). \<not> is_az09 c"
    unfolding examSlug_of_def using no_az09_toLowerCase [OF assms(3)] by (rule no_az09_spaces_to_hyphen)
  have u: "\<forall>c \<in> set (subExamSlug_of q). \<not> is_az09 c"
    unfolding subExamSlug_of_def
    using no_az09_spaces_to_hyphen [OF no_az09_toLowerCase [OF assms(5)], of 30] by auto
  have "\<forall>c \<in> set (filter (\<lambda>c. is_az09 c \<or> is_space c) (toLowerCase (or_empty (topic q)))). \<not> is_az09 c"
    using no_az09_toLowerCase [OF assms(4)] by auto
  then have t: "\<forall>c \<in> set (topicSlug_of q). \<not> is_az09 c"
    unfolding topicSlug_of_def by (rule no_az09_spaces_to_hyphen)
  from c have "c \<in> set ''-'' \<or> (\<exists>x \<in> set (slug_parts q). c \<in> set x)"
    unfolding joined_slug_def by (rule set_join)
  then show "\<not> is_az09 c"
    using e u t statementSlug_symbols [OF assms(1,2)]
    by (auto simp: slug_parts_def is_az09_def split: if_splits)
qed

lemma collapse_hyphens_replicate:
  "collapse_hyphens (replicate n CHR ''-'') = replicate (min n 1) CHR ''-''"
proof (induction n)
  case 0 then show ?case by simp
next
  case (Suc n) then show ?case by (cases n) auto
qed

lemma final_sanitize_symbols:
  assumes "\<forall>c \<in> set s. \<not> is_az09 c"
  shows "final_sanitize s = []"
proof -
  have "map (\<lambda>c. if is_slug_char c then c else CHR ''-'') s = replicate (length s) CHR ''-''"
    using assms by (induction s) (auto simp: is_slug_char_def)
  then have "final_sanitize s = strip_edge_hyphens (replicate (min (length s) 1) CHR ''-'')"
    by (simp only: final_sanitize_def collapse_hyphens_replicate)
  moreover have "min (length s) 1 = 0 \<or> min (length s) 1 = 1" by (cases s) auto
  ultimately show ?thesis
    by (auto simp: strip_edge_hyphens_def)
qed

lemma split_at_last_separator:
  assumes "xs @ c # r1 = ys @ c # r2" and "c \<notin> set r1" and "c \<notin> set r2"
  shows "xs = ys \<and> r1 = r2"
proof -
  have "rev r1 @ c # rev xs = rev r2 @ c # rev ys"
    using arg_cong [OF assms(1), of rev] by simp
  moreover have "c \<notin> set (rev r1)" "c \<notin> set (rev r2)" using assms by simp_all
  ultimately have "rev r1 = rev r2 \<and> rev xs = rev ys"
    by (rule split_at_first_separator [rotated 2])
  then show ?thesis by simp
qed

lemma suffixed_numbers_differ:
  assumes "i \<noteq> j" and "0 \<le> r1" and "0 \<le> r2"
  shows "numberToString i \<noteq> numberToString j @ ''-'' @ numberToString r2"
    and "numberToString i @ ''-'' @ numberToString r1 \<noteq> numberToString j @ ''-'' @ numberToString r2"
proof -
  show "numberToString i \<noteq> numberToString j @ ''-'' @ numberToString r2"
  proof
    assume e: "numberToString i = numberToString j @ ''-'' @ numberToString r2"
    obtain a as where j: "numberToString j = a # as"
      using numberToString_nonempty [of j] by (cases "numberToString j") auto
    have "tl (numberToString i) = as @ ''-'' @ numberToString r2"
      unfolding e j by simp
    then have "CHR ''-'' \<in> set (tl (numberToString i))" by simp
    then show False using numberToString_tl_no_hyphen [of i] by simp
  qed
  show "numberToString i @ ''-'' @ numberToString r1 \<noteq> numberToString j @ ''-'' @ numberToString r2"
  proof
    assume "numberToString i @ ''-'' @ numberToString r1 = numberToString j @ ''-'' @ numberToString r2"
    then have e: "numberToString i @ CHR ''-'' # numberToString r1 = numberToString j @ CHR ''-'' # numberToString r2"
      by simp
    have "numberToString i = numberToString j \<and> numberToString r1 = numberToString r2"
      by (rule split_at_last_separator [OF e numberToString_nat_no_hyphen [OF assms(2)]
            numberToString_nat_no_hyphen [OF assms(3)]])
    then have "i = j" using numberToString_inj by blast
    then show False using assms(1) by simp
  qed
qed

section \<open>Properties of titles and keywords\<close>

lemma startsWith_toLowerCase:
  "startsWith s p \<Longrightarrow> toLowerCase p = p \<Longrightarrow> startsWith (toLowerCase s) p"
  unfolding startsWith_def toLowerCase_def by (metis take_map)

lemma startsWith_prefix: "startsWith s (p @ r) \<Longrightarrow> startsWith s p"
proof -
  assume "startsWith s (p @ r)"
  then have a: "take (length (p @ r)) s = p @ r" by (simp only: startsWith_def)
  have "take (length p) s = take (length p) (take (length (p @ r)) s)" by (simp add: min_def)
  also have "\<dots> = take (length p) (p @ r)" by (simp only: a)
  also have "\<dots> = p" by simp
  finally show ?thesis by (simp only: startsWith_def)
qed

lemma startsWith_http_scheme:
  "startsWith s ''http://'' \<or> startsWith s ''https://'' \<Longrightarrow> startsWith s ''http''"
  using startsWith_prefix [of s "''http''" "''://''"] startsWith_prefix [of s "''http''" "''s://''"]
  by auto

lemma new_Set_snoc: "new_Set (xs @ [x]) = set_add (new_Set xs) x"
  by (simp add: new_Set_def)

lemma set_new_Set: "set (new_Set xs) = set xs"
  by (induction xs rule: rev_induct) (auto simp: new_Set_snoc set_add_def, simp add: new_Set_def)

lemma distinct_new_Set: "distinct (new_Set xs)"
proof (induction xs rule: rev_induct)
  case Nil
  then show ?case by (simp add: new_Set_def)
next
  case (snoc x xs)
  then show ?case by (simp add: new_Set_snoc set_add_def)
qed

lemma new_Set_append:
  "new_Set (xs @ ys) = new_Set xs @ new_Set (filter (\<lambda>y. y \<notin> set xs) ys)"
proof (induction ys rule: rev_induct)
  case Nil
  then show ?case by (simp add: new_Set_def)
next
  case (snoc y ys)
  have "new_Set (xs @ ys @ [y]) = set_add (new_Set (xs @ ys)) y"
    using new_Set_snoc [of "xs @ ys" y] by simp
  also have "\<dots> = set_add (new_Set xs @ new_Set (filter (\<lambda>y. y \<notin> set xs) ys)) y"
    by (simp only: snoc.IH)
  also have "\<dots> = new_Set xs @ new_Set (filter (\<lambda>y. y \<notin> set xs) (ys @ [y]))"
    by (auto simp: set_add_def set_new_Set new_Set_snoc)
  finally show ?case by simp
qed

lemma new_Set_three:
  "new_Set (h @ e @ u) =
     new_Set h @ new_Set (filter (\<lambda>x. x \<notin> set h) e)
       @ new_Set (filter (\<lambda>x. x \<notin> set h \<and> x \<notin> set e) u)"
proof -
  have "new_Set (h @ e @ u) = new_Set h @ new_Set (filter (\<lambda>x. x \<notin> set h) e @ filter (\<lambda>x. x \<notin> set h) u)"
    by (simp add: new_Set_append)
  also have "new_Set (filter (\<lambda>x. x \<notin> set h) e @ filter (\<lambda>x. x \<notin> set h) u) =
      new_Set (filter (\<lambda>x. x \<notin> set h) e)
       @ new_Set (filter (\<lambda>x. x \<notin> set (filter (\<lambda>x. x \<notin> set h) e)) (filter (\<lambda>x. x \<notin> set h) u))"
    by (rule new_Set_append)
  also have "filter (\<lambda>x. x \<notin> set (filter (\<lambda>x. x \<notin> set h) e)) (filter (\<lambda>x. x \<notin> set h) u)
      = filter (\<lambda>x. x \<notin> set h \<and> x \<notin> set e) u"
    by (induction u) auto
  finally show ?thesis .
qed

lemma block_order:
  assumes "ks = a @ r" and "\<forall>x \<in> set a. P x" and "\<forall>x \<in> set r. \<not> P x"
    and "i < length ks" and "j < length ks" and "P (ks ! i)" and "\<not> P (ks ! j)"
  shows "i < j"
proof -
  have "i < length a"
  proof (rule ccontr)
    assume "\<not> i < length a"
    then have "ks ! i \<in> set r" using assms(1,4) by (simp add: nth_append)
    then show False using assms(3,6) by blast
  qed
  moreover have "\<not> j < length a"
  proof
    assume "j < length a"
    then have "ks ! j \<in> set a" using assms(1) by (simp add: nth_append)
    then show False using assms(2,7) by blast
  qed
  ultimately show ?thesis by simp
qed

lemma examKeywords_ordinary:
  assumes "ordinary_name (exam q)" and "ordinary_name (subExam q)"
  shows "\<exists>e. examKeywords q = KeywordList e"
proof -
  have d: "''_default'' \<notin> set prototype_functions" "''_default'' \<noteq> ''__proto__''"
    by (simp_all add: prototype_functions_def)
  define key where "key = (if truthy (subExam q) then or_empty (subExam q) else ''_default'')"
  have k: "key \<notin> set prototype_functions \<and> key \<noteq> ''__proto__''"
    using assms(2) d by (simp add: key_def ordinary_name_def)
  have n: "\<And>table. \<exists>e. (case get_property table key of
             Own ks \<Rightarrow> KeywordList ks
           | InheritedFunction \<Rightarrow> NotIterable
           | InheritedPrototype \<Rightarrow> NotIterable
           | Undefined \<Rightarrow>
               (case get_property table ''_default'' of
                  Own ks \<Rightarrow> KeywordList ks
                | InheritedFunction \<Rightarrow> NotIterable
                | InheritedPrototype \<Rightarrow> NotIterable
                | Undefined \<Rightarrow> KeywordList [])) = KeywordList e"
    using k d by (auto simp: get_property_def split: option.splits)
  show ?thesis
  proof (cases "truthy (exam q)")
    case False
    then show ?thesis by (simp add: examKeywords_def)
  next
    case True
    have p: "get_property EXAM_KEYWORD_MAP (or_empty (exam q)) \<noteq> InheritedFunction
      \<and> get_property EXAM_KEYWORD_MAP (or_empty (exam q)) \<noteq> InheritedPrototype"
      using assms(1) by (auto simp: get_property_def ordinary_name_def split: option.splits)
    show ?thesis
    proof (cases "get_property EXAM_KEYWORD_MAP (or_empty (exam q))")
      case Undefined
      then show ?thesis using True by (simp add: examKeywords_def getExamSpecificKeywords_def)
    next
      case (Own v)
      then show ?thesis using True n [unfolded key_def]
        by (cases v) (auto simp: examKeywords_def getExamSpecificKeywords_def Let_def)
    next
      case InheritedFunction
      then show ?thesis using p by simp
    next
      case InheritedPrototype
      then show ?thesis using p by simp
    qed
  qed
qed

lemma toLowerCase_empty: "(toLowerCase s = []) = (s = [])"
  by (simp add: toLowerCase_def)

lemma filter_Boolean_lowered:
  "filter_Boolean (map lowered vs @ map (\<lambda>t. Some (toLowerCase t)) ts) =
     filter (\<lambda>s. s \<noteq> []) (map (\<lambda>v. toLowerCase (or_empty v)) vs @ map toLowerCase ts)"
proof -
  have a: "filter_Boolean (map lowered vs) = filter (\<lambda>s. s \<noteq> []) (map (\<lambda>v. toLowerCase (or_empty v)) vs)"
    by (induction vs)
       (auto simp: filter_Boolean_def lowered_def truthy_def or_empty_def toLowerCase_empty
          split: option.splits)
  have b: "filter_Boolean (map (\<lambda>t. Some (toLowerCase t)) ts) = filter (\<lambda>s. s \<noteq> []) (map toLowerCase ts)"
    by (induction ts) (auto simp: filter_Boolean_def truthy_def or_empty_def)
  show ?thesis using a b by (simp add: filter_Boolean_def)
qed

lemma hierarchicalKeywords_fields:
  "hierarchicalKeywords q =
     filter (\<lambda>s. s \<noteq> [])
       (map (\<lambda>v. toLowerCase (or_empty v))
          [exam q, subExam q, section_of q, category q, topic q, qtype q, difficulty q]
        @ map toLowerCase (case tags q of None \<Rightarrow> [] | Some ts \<Rightarrow> ts))"
  using filter_Boolean_lowered
    [of "[exam q, subExam q, section_of q, category q, topic q, qtype q, difficulty q]"
        "case tags q of None \<Rightarrow> [] | Some ts \<Rightarrow> ts"]
  by (simp add: hierarchicalKeywords_def)

lemma nested_lookup:
  assumes "key \<notin> set prototype_functions" and "key \<noteq> ''__proto__''"
  shows "(case get_property table key of
             Own ks \<Rightarrow> KeywordList ks
           | InheritedFunction \<Rightarrow> NotIterable
           | InheritedPrototype \<Rightarrow> NotIterable
           | Undefined \<Rightarrow>
               (case get_property table ''_default'' of
                  Own ks \<Rightarrow> KeywordList ks
                | InheritedFunction \<Rightarrow> NotIterable
                | InheritedPrototype \<Rightarrow> NotIterable
                | Undefined \<Rightarrow> KeywordList []))
         = KeywordList (case map_of table key of
                  Some ks \<Rightarrow> ks
                | None \<Rightarrow> (case map_of table ''_default'' of Some ks \<Rightarrow> ks | None \<Rightarrow> []))"
proof -
  have d: "''_default'' \<notin> set prototype_functions" "''_default'' \<noteq> ''__proto__''"
    by (simp_all add: prototype_functions_def)
  show ?thesis
    using assms d by (simp add: get_property_def split: option.splits)
qed

lemma examKeywords_curated:
  assumes "ordinary_name (exam q)" and "ordinary_name (subExam q)"
  shows "examKeywords q = KeywordList (curated_keywords q)"
proof (cases "truthy (exam q)")
  case False
  then show ?thesis by (simp add: examKeywords_def curated_keywords_def)
next
  case True
  have d: "''_default'' \<notin> set prototype_functions" "''_default'' \<noteq> ''__proto__''"
    by (simp_all add: prototype_functions_def)
  have x: "or_empty (exam q) \<notin> set prototype_functions" "or_empty (exam q) \<noteq> ''__proto__''"
    using assms(1) by (simp_all add: ordinary_name_def)
  have gx: "get_property EXAM_KEYWORD_MAP (or_empty (exam q)) =
      (case map_of EXAM_KEYWORD_MAP (or_empty (exam q)) of Some v \<Rightarrow> Own v | None \<Rightarrow> Undefined)"
    using x by (simp add: get_property_def split: option.splits)
  show ?thesis
  proof (cases "truthy (subExam q)")
    case sub: True
    have k: "or_empty (subExam q) \<notin> set prototype_functions" "or_empty (subExam q) \<noteq> ''__proto__''"
      using assms(2) by (simp_all add: ordinary_name_def)
    show ?thesis
      using True sub
      by (simp add: examKeywords_def curated_keywords_def getExamSpecificKeywords_def Let_def gx
          nested_lookup [OF k] split: option.splits exam_keywords.splits)
  next
    case sub: False
    show ?thesis
      using True sub
      by (simp add: examKeywords_def curated_keywords_def getExamSpecificKeywords_def Let_def gx
          nested_lookup [OF d] split: option.splits exam_keywords.splits)
  qed
qed

lemma generateKeywords_blocks:
  "(ordinary_name (exam q) \<and> ordinary_name (subExam q) \<longrightarrow> (\<exists>ks. generateKeywords q = Inr ks))
   \<and> (generateKeywords q = Inr ks \<longrightarrow>
        distinct ks
        \<and> (\<exists>e. examKeywords q = KeywordList e
             \<and> set ks = set (hierarchicalKeywords q) \<union> set e \<union> set UNIVERSAL_KEYWORDS
             \<and> ks = new_Set (hierarchicalKeywords q)
                 @ new_Set (filter (\<lambda>x. x \<notin> set (hierarchicalKeywords q)) e)
                 @ new_Set (filter (\<lambda>x. x \<notin> set (hierarchicalKeywords q) \<and> x \<notin> set e) UNIVERSAL_KEYWORDS)
             \<and> (\<forall>i j. i < length ks \<and> j < length ks \<and> ks ! i \<in> set (hierarchicalKeywords q)
                    \<and> ks ! j \<notin> set (hierarchicalKeywords q) \<longrightarrow> i < j)
             \<and> (\<forall>i j. i < length ks \<and> j < length ks \<and> ks ! i \<in> set (hierarchicalKeywords q) \<union> set e
                    \<and> ks ! j \<notin> set (hierarchicalKeywords q) \<union> set e \<longrightarrow> i < j)))"
proof (intro conjI impI)
  assume "ordinary_name (exam q) \<and> ordinary_name (subExam q)"
  then obtain e where "examKeywords q = KeywordList e" using examKeywords_ordinary by blast
  then show "\<exists>ks. generateKeywords q = Inr ks" by (simp add: generateKeywords_def)
next
  assume g: "generateKeywords q = Inr ks"
  then show "distinct ks"
    by (auto simp: generateKeywords_def distinct_new_Set split: keywords_value.splits)
next
  assume g: "generateKeywords q = Inr ks"
  let ?h = "hierarchicalKeywords q"
  let ?u = "UNIVERSAL_KEYWORDS"
  from g obtain e where e: "examKeywords q = KeywordList e" and ks: "ks = new_Set (?h @ e @ ?u)"
    by (auto simp: generateKeywords_def split: keywords_value.splits)
  let ?a = "new_Set ?h"
  let ?b = "new_Set (filter (\<lambda>x. x \<notin> set ?h) e)"
  let ?c = "new_Set (filter (\<lambda>x. x \<notin> set ?h \<and> x \<notin> set e) ?u)"
  have blocks: "ks = ?a @ ?b @ ?c" unfolding ks by (rule new_Set_three)
  have s: "set ks = set ?h \<union> set e \<union> set ?u" unfolding ks by (simp add: set_new_Set Un_assoc)
  have o1: "\<forall>i j. i < length ks \<and> j < length ks \<and> ks ! i \<in> set ?h \<and> ks ! j \<notin> set ?h \<longrightarrow> i < j"
  proof (intro allI impI)
    fix i j assume a: "i < length ks \<and> j < length ks \<and> ks ! i \<in> set ?h \<and> ks ! j \<notin> set ?h"
    show "i < j"
      by (rule block_order [where P = "\<lambda>x. x \<in> set ?h" and a = ?a and r = "?b @ ?c" and ks = ks])
         (use a blocks in \<open>auto simp: set_new_Set\<close>)
  qed
  have o2: "\<forall>i j. i < length ks \<and> j < length ks \<and> ks ! i \<in> set ?h \<union> set e
                    \<and> ks ! j \<notin> set ?h \<union> set e \<longrightarrow> i < j"
  proof (intro allI impI)
    fix i j assume a: "i < length ks \<and> j < length ks \<and> ks ! i \<in> set ?h \<union> set e
                    \<and> ks ! j \<notin> set ?h \<union> set e"
    show "i < j"
      by (rule block_order [where P = "\<lambda>x. x \<in> set ?h \<union> set e" and a = "?a @ ?b" and r = ?c and ks = ks])
         (use a blocks in \<open>auto simp: set_new_Set\<close>)
  qed
  from e s blocks o1 o2
  show "\<exists>e. examKeywords q = KeywordList e
             \<and> set ks = set (hierarchicalKeywords q) \<union> set e \<union> set UNIVERSAL_KEYWORDS
             \<and> ks = new_Set (hierarchicalKeywords q)
                 @ new_Set (filter (\<lambda>x. x \<notin> set (hierarchicalKeywords q)) e)
                 @ new_Set (filter (\<lambda>x. x \<notin> set (hierarchicalKeywords q) \<and> x \<notin> set e) UNIVERSAL_KEYWORDS)
             \<and> (\<forall>i j. i < length ks \<and> j < length ks \<and> ks ! i \<in> set (hierarchicalKeywords q)
                    \<and> ks ! j \<notin> set (hierarchicalKeywords q) \<longrightarrow> i < j)
             \<and> (\<forall>i j. i < length ks \<and> j < length ks \<and> ks ! i \<in> set (hierarchicalKeywords q) \<union> set e
                    \<and> ks ! j \<notin> set (hierarchicalKeywords q) \<union> set e \<longrightarrow> i < j)"
    by blast
qed

section \<open>Properties of buckets and indexes\<close>

lemma update_new_key: "k \<notin> fst ` set m \<Longrightarrow> AList.update k v m = m @ [(k, v)]"
  by (induction m) auto

lemma update_keyed_map:
  "distinct ks \<Longrightarrow> k \<in> set ks \<Longrightarrow>
   AList.update k v (map (\<lambda>j. (j, f j)) ks) = map (\<lambda>j. (j, if j = k then v else f j)) ks"
proof (induction ks)
  case Nil
  then show ?case by simp
next
  case (Cons a ks)
  show ?case
  proof (cases "a = k")
    case True
    then have "k \<notin> set ks" using Cons.prems by simp
    then have "map (\<lambda>j. (j, if j = k then v else f j)) ks = map (\<lambda>j. (j, f j)) ks" by auto
    then show ?thesis using True by simp
  next
    case False
    then show ?thesis using Cons by simp
  qed
qed

lemma map_of_keyed_map:
  "map_of (map (\<lambda>j. (j, f j)) ks) k = (if k \<in> set ks then Some (f k) else None)"
  by (induction ks) auto

lemma push_to_bucket_keyed_old:
  assumes "distinct ks" and "k \<in> set ks"
  shows "push_to_bucket (map (\<lambda>j. (j, f j)) ks) k x = map (\<lambda>j. (j, if j = k then f k @ [x] else f j)) ks"
  using assms by (simp add: push_to_bucket_def map_of_keyed_map update_keyed_map)

lemma push_to_bucket_keyed_new:
  assumes "k \<notin> set ks"
  shows "push_to_bucket (map (\<lambda>j. (j, f j)) ks) k x = map (\<lambda>j. (j, f j)) ks @ [(k, [x])]"
proof -
  let ?m = "map (\<lambda>j. (j, f j)) ks"
  have n: "k \<notin> fst ` set ?m" using assms by (auto simp: image_iff)
  have 1: "map_of ?m k = None" using assms by (simp add: map_of_keyed_map)
  have 2: "AList.update k [] ?m = ?m @ [(k, [])]" using n by (rule update_new_key)
  have 3: "map_of (?m @ [(k, [])]) k = Some []" using 1 by (simp add: map_add_def)
  have 4: "AList.update k [x] (?m @ [(k, [])]) = ?m @ [(k, [x])]"
    using n by (induction ks) auto
  show ?thesis unfolding push_to_bucket_def Let_def 1 using 2 3 4 by simp
qed

lemma map_filter_snoc:
  "List.map_filter f (xs @ [x]) = List.map_filter f xs @ (case f x of None \<Rightarrow> [] | Some y \<Rightarrow> [y])"
  by (simp add: List.map_filter_def split: option.splits)

lemma grouped_snoc_None: "key x = None \<Longrightarrow> grouped key val (xs @ [x]) = grouped key val xs"
  by (simp add: grouped_def map_filter_snoc)

lemma grouped_snoc_Some:
  assumes "key x = Some k"
  shows "grouped key val (xs @ [x]) = push_to_bucket (grouped key val xs) k (val x)"
proof -
  let ?K = "new_Set (List.map_filter key xs)"
  let ?f = "\<lambda>j. map val (filter (\<lambda>x. key x = Some j) xs)"
  have keys: "new_Set (List.map_filter key (xs @ [x])) = set_add ?K k"
    using assms by (simp add: map_filter_snoc new_Set_snoc)
  have vals: "\<And>j. map val (filter (\<lambda>y. key y = Some j) (xs @ [x])) = (if j = k then ?f k @ [val x] else ?f j)"
    using assms by auto
  have g: "grouped key val (xs @ [x]) = map (\<lambda>j. (j, if j = k then ?f k @ [val x] else ?f j)) (set_add ?K k)"
    unfolding grouped_def keys vals ..
  show ?thesis
  proof (cases "k \<in> set ?K")
    case True
    then have "set_add ?K k = ?K" by (simp add: set_add_def)
    with g have "grouped key val (xs @ [x]) = map (\<lambda>j. (j, if j = k then ?f k @ [val x] else ?f j)) ?K"
      by simp
    also have "\<dots> = push_to_bucket (map (\<lambda>j. (j, ?f j)) ?K) k (val x)"
      using push_to_bucket_keyed_old [OF distinct_new_Set True, of ?f "val x"] by simp
    finally show ?thesis by (simp only: grouped_def)
  next
    case False
    then have s: "set_add ?K k = ?K @ [k]" by (simp add: set_add_def)
    have "k \<notin> set (List.map_filter key xs)" using False by (simp add: set_new_Set)
    then have e: "?f k = []"
      by (auto simp: List.map_filter_def filter_empty_conv image_iff)
    have m: "map (\<lambda>j. (j, if j = k then ?f k @ [val x] else ?f j)) ?K = map (\<lambda>j. (j, ?f j)) ?K"
      using False by auto
    from g s have "grouped key val (xs @ [x]) =
        map (\<lambda>j. (j, if j = k then ?f k @ [val x] else ?f j)) ?K @ [(k, ?f k @ [val x])]"
      by simp
    also have "\<dots> = map (\<lambda>j. (j, ?f j)) ?K @ [(k, [val x])]"
      using m e by simp
    also have "\<dots> = push_to_bucket (map (\<lambda>j. (j, ?f j)) ?K) k (val x)"
      using push_to_bucket_keyed_new [OF False, of ?f "val x"] by simp
    finally show ?thesis by (simp only: grouped_def)
  qed
qed

lemma grouped_Nil: "grouped key val [] = []"
  by (simp add: grouped_def List.map_filter_def new_Set_def)

lemma buildQuestionIndexes_snoc:
  "buildQuestionIndexes (qs @ [q]) = index_question (buildQuestionIndexes qs) q"
  by (simp add: buildQuestionIndexes_def)

lemma byTopic_grouped: "byTopic (buildQuestionIndexes qs) = grouped topic_key (\<lambda>q. q) qs"
proof (induction qs rule: rev_induct)
  case Nil
  then show ?case by (simp add: buildQuestionIndexes_def empty_indexes_def grouped_Nil)
next
  case (snoc q qs)
  show ?case
  proof (cases "truthy (topic q)")
    case True
    then have "topic_key q = Some (or_empty (topic q))"
      by (auto simp: topic_key_def truthy_def or_empty_def split: option.splits)
    from grouped_snoc_Some [where key = topic_key and x = q and val = "\<lambda>q. q" and xs = qs, OF this] snoc True show ?thesis
      by (simp add: buildQuestionIndexes_snoc index_question_def Let_def)
  next
    case False
    then have "topic_key q = None" by (simp add: topic_key_def)
    from grouped_snoc_None [where key = topic_key and x = q and val = "\<lambda>q. q" and xs = qs, OF this] snoc False show ?thesis
      by (simp add: buildQuestionIndexes_snoc index_question_def Let_def)
  qed
qed

lemma byCategory_grouped: "byCategory (buildQuestionIndexes qs) = grouped category_key (\<lambda>q. q) qs"
proof (induction qs rule: rev_induct)
  case Nil
  then show ?case by (simp add: buildQuestionIndexes_def empty_indexes_def grouped_Nil)
next
  case (snoc q qs)
  show ?case
  proof (cases "truthy (category q)")
    case True
    then have "category_key q = Some (or_empty (category q))"
      by (auto simp: category_key_def truthy_def or_empty_def split: option.splits)
    from grouped_snoc_Some [where key = category_key and x = q and val = "\<lambda>q. q" and xs = qs, OF this] snoc True show ?thesis
      by (simp add: buildQuestionIndexes_snoc index_question_def Let_def)
  next
    case False
    then have "category_key q = None" by (simp add: category_key_def)
    from grouped_snoc_None [where key = category_key and x = q and val = "\<lambda>q. q" and xs = qs, OF this] snoc False show ?thesis
      by (simp add: buildQuestionIndexes_snoc index_question_def Let_def)
  qed
qed

lemma byExam_grouped: "byExam (buildQuestionIndexes qs) = grouped exam_key (\<lambda>q. q) qs"
proof (induction qs rule: rev_induct)
  case Nil
  then show ?case by (simp add: buildQuestionIndexes_def empty_indexes_def grouped_Nil)
next
  case (snoc q qs)
  show ?case
  proof (cases "truthy (exam q)")
    case True
    then have "exam_key q = Some (or_empty (exam q))"
      by (auto simp: exam_key_def truthy_def or_empty_def split: option.splits)
    from grouped_snoc_Some [where key = exam_key and x = q and val = "\<lambda>q. q" and xs = qs, OF this] snoc True show ?thesis
      by (simp add: buildQuestionIndexes_snoc index_question_def Let_def)
  next
    case False
    then have "exam_key q = None" by (simp add: exam_key_def)
    from grouped_snoc_None [where key = exam_key and x = q and val = "\<lambda>q. q" and xs = qs, OF this] snoc False show ?thesis
      by (simp add: buildQuestionIndexes_snoc index_question_def Let_def)
  qed
qed

lemma byExamAndTopic_grouped: "byExamAndTopic (buildQuestionIndexes qs) = grouped exam_topic_key (\<lambda>q. q) qs"
proof (induction qs rule: rev_induct)
  case Nil
  then show ?case by (simp add: buildQuestionIndexes_def empty_indexes_def grouped_Nil)
next
  case (snoc q qs)
  show ?case
  proof (cases "truthy (exam q) \<and> truthy (topic q)")
    case True
    then have "exam_topic_key q = Some (or_empty (exam q) @ ''::'' @ or_empty (topic q))"
      by (simp add: exam_topic_key_def)
    from grouped_snoc_Some [where key = exam_topic_key and x = q and val = "\<lambda>q. q" and xs = qs, OF this] snoc True show ?thesis
      by (simp add: buildQuestionIndexes_snoc index_question_def Let_def)
  next
    case False
    then have "exam_topic_key q = None" by (simp add: exam_topic_key_def)
    from grouped_snoc_None [where key = exam_topic_key and x = q and val = "\<lambda>q. q" and xs = qs, OF this] snoc False show ?thesis
      by (auto simp: buildQuestionIndexes_snoc index_question_def Let_def)
  qed
qed

lemma byQuestionNumber_last:
  "byQuestionNumber (buildQuestionIndexes qs) =
     map (\<lambda>n. (n, last (filter (\<lambda>q. questionNumber q = n) qs))) (new_Set (map questionNumber qs))"
proof (induction qs rule: rev_induct)
  case Nil
  then show ?case by (simp add: buildQuestionIndexes_def empty_indexes_def new_Set_def)
next
  case (snoc q qs)
  let ?K = "new_Set (map questionNumber qs)"
  let ?f = "\<lambda>n. last (filter (\<lambda>q. questionNumber q = n) qs)"
  let ?n = "questionNumber q"
  have step: "byQuestionNumber (buildQuestionIndexes (qs @ [q])) = AList.update ?n q (map (\<lambda>n. (n, ?f n)) ?K)"
    using snoc by (simp add: buildQuestionIndexes_snoc index_question_def Let_def)
  have vals: "\<And>n. last (filter (\<lambda>p. questionNumber p = n) (qs @ [q])) = (if n = ?n then q else ?f n)"
    by auto
  have keys: "new_Set (map questionNumber (qs @ [q])) = set_add ?K ?n"
    by (simp add: new_Set_snoc)
  show ?case
  proof (cases "?n \<in> set ?K")
    case True
    then have "set_add ?K ?n = ?K" by (simp add: set_add_def)
    then show ?thesis
      unfolding step keys vals
      using update_keyed_map [OF distinct_new_Set True, of q ?f] by simp
  next
    case False
    then have s: "set_add ?K ?n = ?K @ [?n]" by (simp add: set_add_def)
    have n: "?n \<notin> fst ` set (map (\<lambda>n. (n, ?f n)) ?K)" using False by (auto simp: image_iff)
    have "map (\<lambda>n. (n, if n = ?n then q else ?f n)) ?K = map (\<lambda>n. (n, ?f n)) ?K"
      using False by auto
    then show ?thesis
      unfolding step keys vals s using update_new_key [OF n, of q] by simp
  qed
qed

lemma baseSlugCounts_grouped:
  "baseSlugCounts qs = grouped (\<lambda>q. Some (buildBaseSlug q)) questionNumber qs"
proof (induction qs rule: rev_induct)
  case Nil
  then show ?case by (simp add: baseSlugCounts_def grouped_Nil)
next
  case (snoc q qs)
  have "baseSlugCounts (qs @ [q]) = push_to_bucket (baseSlugCounts qs) (buildBaseSlug q) (questionNumber q)"
    by (simp add: baseSlugCounts_def)
  also have "\<dots> = push_to_bucket (grouped (\<lambda>q. Some (buildBaseSlug q)) questionNumber qs)
      (buildBaseSlug q) (questionNumber q)"
    by (simp only: snoc.IH)
  also have "\<dots> = grouped (\<lambda>q. Some (buildBaseSlug q)) questionNumber (qs @ [q])"
    by (rule grouped_snoc_Some [symmetric]) simp
  finally show ?case .
qed

lemma map_of_baseSlugCounts:
  assumes "q \<in> set qs"
  shows "map_of (baseSlugCounts qs) (buildBaseSlug q) =
    Some (map questionNumber (filter (\<lambda>p. buildBaseSlug p = buildBaseSlug q) qs))"
proof -
  have "buildBaseSlug q \<in> set (new_Set (List.map_filter (\<lambda>q. Some (buildBaseSlug q)) qs))"
    using assms by (auto simp: set_new_Set List.map_filter_def image_iff)
  then show ?thesis
    by (simp add: baseSlugCounts_grouped grouped_def map_of_keyed_map)
qed

lemma indexOf_position:
  "n \<in> set ns \<Longrightarrow> \<exists>i < length ns. ns ! i = n \<and> indexOf ns n = int i"
proof (induction ns)
  case Nil
  then show ?case by simp
next
  case (Cons a ns)
  show ?case
  proof (cases "a = n")
    case True
    then show ?thesis by auto
  next
    case False
    then have "n \<in> set ns" using Cons.prems by simp
    then obtain i where i: "i < length ns" "ns ! i = n" "indexOf ns n = int i"
      using Cons.IH by blast
    then have "Suc i < length (a # ns) \<and> (a # ns) ! Suc i = n \<and> indexOf (a # ns) n = int (Suc i)"
      using False by (simp add: Let_def)
    then show ?thesis by blast
  qed
qed

lemma single_bucket:
  assumes "distinct qs" and "q \<in> set qs"
  shows "(length (filter (\<lambda>p. buildBaseSlug p = buildBaseSlug q) qs) = 1) = (\<not> shares_base_slug qs q)"
proof -
  let ?F = "filter (\<lambda>p. buildBaseSlug p = buildBaseSlug q) qs"
  have d: "distinct ?F" using assms(1) by simp
  have m: "q \<in> set ?F" using assms(2) by simp
  show ?thesis
  proof
    assume "length ?F = 1"
    then obtain x where "?F = [x]" by (cases ?F) auto
    then have "set ?F = {q}" using m by auto
    then show "\<not> shares_base_slug qs q"
      by (auto simp: shares_base_slug_def list_ex_iff)
  next
    assume "\<not> shares_base_slug qs q"
    then have "set ?F = {q}" using m by (auto simp: shares_base_slug_def list_ex_iff)
    then have "card (set ?F) = 1" by simp
    moreover have "card (set ?F) = length ?F" using d by (rule distinct_card)
    ultimately show "length ?F = 1" by simp
  qed
qed

lemma final_slug_value:
  assumes "distinct qs" and "q \<in> set qs"
  shows "final_slug (baseSlugCounts qs) q =
     Some (if \<not> shares_base_slug qs q then buildBaseSlug q
           else buildBaseSlug q @ ''-'' @
                numberToString (indexOf (colliding_numbers qs q) (questionNumber q) + 1))"
  using single_bucket [OF assms]
  by (simp add: final_slug_def map_of_baseSlugCounts [OF assms(2)] Let_def colliding_numbers_def)

lemma assign_slugs_lookup:
  assumes "distinct (map questionNumber qs)" and "\<forall>q \<in> set qs. final_slug counts q \<noteq> None"
  shows "\<exists>m. assign_slugs counts qs m0 = Some m
      \<and> (\<forall>q \<in> set qs. map_of m (questionNumber q) = final_slug counts q)
      \<and> (\<forall>n. n \<notin> questionNumber ` set qs \<longrightarrow> map_of m n = map_of m0 n)"
  using assms
proof (induction qs arbitrary: m0)
  case Nil
  then show ?case by simp
next
  case (Cons q qs)
  obtain s where s: "final_slug counts q = Some s" using Cons.prems(2) by auto
  let ?m1 = "AList.update (questionNumber q) s m0"
  have d: "distinct (map questionNumber qs)" and n: "questionNumber q \<notin> questionNumber ` set qs"
    using Cons.prems(1) by auto
  have f: "\<forall>q \<in> set qs. final_slug counts q \<noteq> None" using Cons.prems(2) by simp
  obtain m where m: "assign_slugs counts qs ?m1 = Some m"
      "\<forall>q \<in> set qs. map_of m (questionNumber q) = final_slug counts q"
      "\<forall>n. n \<notin> questionNumber ` set qs \<longrightarrow> map_of m n = map_of ?m1 n"
    using Cons.IH [OF d f, of ?m1] by blast
  have 1: "assign_slugs counts (q # qs) m0 = Some m" using s m(1) by simp
  have 2: "map_of m (questionNumber q) = final_slug counts q"
    using m(3) n s by (simp add: update_conv')
  have 3: "\<forall>n. n \<notin> questionNumber ` set (q # qs) \<longrightarrow> map_of m n = map_of m0 n"
    using m(3) by (simp add: update_conv')
  show ?case using 1 2 3 m(2) by auto
qed

lemma generateAllSlugs_lookup:
  assumes "distinct (map questionNumber qs)"
  shows "\<exists>m. generateAllSlugs qs = Some m
      \<and> (\<forall>q \<in> set qs. map_of m (questionNumber q) =
            Some (if \<not> shares_base_slug qs q then buildBaseSlug q
                  else buildBaseSlug q @ ''-'' @
                       numberToString (indexOf (colliding_numbers qs q) (questionNumber q) + 1)))"
proof -
  have d: "distinct qs" using assms by (simp add: distinct_map)
  have f: "\<forall>q \<in> set qs. final_slug (baseSlugCounts qs) q \<noteq> None"
    using final_slug_value [OF d] by simp
  obtain m where m: "assign_slugs (baseSlugCounts qs) qs [] = Some m"
      "\<forall>q \<in> set qs. map_of m (questionNumber q) = final_slug (baseSlugCounts qs) q"
    using assign_slugs_lookup [OF assms f, of "[]"] by blast
  show ?thesis
    using m final_slug_value [OF d] by (simp add: generateAllSlugs_def)
qed

lemma colliding_rank:
  assumes "q \<in> set qs"
  shows "\<exists>r. 1 \<le> r \<and> r \<le> length (colliding_numbers qs q)
     \<and> colliding_numbers qs q ! (r - 1) = questionNumber q
     \<and> indexOf (colliding_numbers qs q) (questionNumber q) + 1 = int r"
proof -
  have "questionNumber q \<in> set (colliding_numbers qs q)"
    using assms by (auto simp: colliding_numbers_def)
  then obtain i where i: "i < length (colliding_numbers qs q)"
      "colliding_numbers qs q ! i = questionNumber q"
      "indexOf (colliding_numbers qs q) (questionNumber q) = int i"
    using indexOf_position by blast
  then have "1 \<le> Suc i \<and> Suc i \<le> length (colliding_numbers qs q)
     \<and> colliding_numbers qs q ! (Suc i - 1) = questionNumber q
     \<and> indexOf (colliding_numbers qs q) (questionNumber q) + 1 = int (Suc i)"
    by simp
  then show ?thesis by blast
qed

lemma colliding_numbers_sorted_distinct:
  assumes "distinct (map questionNumber qs)"
  shows "sorted (colliding_numbers qs q) \<and> distinct (colliding_numbers qs q)"
  using assms by (simp add: colliding_numbers_def distinct_map_filter)

lemma joined_slug_same_fields:
  assumes "statement q1 = statement q2" "exam q1 = exam q2" "topic q1 = topic q2"
    "subExam q1 = subExam q2"
  shows "joined_slug q1 = joined_slug q2"
  using assms
  by (simp add: joined_slug_def slug_parts_def statementSlug_of_def statementText_of_def
      examSlug_of_def subExamSlug_of_def topicSlug_of_def)

lemma buildBaseSlug_same_fields:
  assumes "statement q1 = statement q2" "exam q1 = exam q2" "topic q1 = topic q2"
    "subExam q1 = subExam q2"
  shows "buildBaseSlug q1 = buildBaseSlug q2
     \<or> (buildBaseSlug q1 = question_fallback q1 \<and> buildBaseSlug q2 = question_fallback q2)"
  using assms joined_slug_same_fields [OF assms]
  by (simp add: buildBaseSlug_def capped_slug_eq Let_def)

lemma fallback_slugs_differ:
  assumes n: "questionNumber q1 \<noteq> questionNumber q2"
    and s1: "s1 = question_fallback q1 \<or> (\<exists>r. s1 = question_fallback q1 @ ''-'' @ numberToString (int r))"
    and s2: "s2 = question_fallback q2 \<or> (\<exists>r. s2 = question_fallback q2 @ ''-'' @ numberToString (int r))"
  shows "s1 \<noteq> s2"
proof -
  let ?i = "questionNumber q1" and ?j = "questionNumber q2"
  have m: "?j \<noteq> ?i" using n by simp
  from s1 show ?thesis
  proof
    assume a: "s1 = question_fallback q1"
    from s2 show ?thesis
    proof
      assume "s2 = question_fallback q2"
      then show ?thesis using a n numberToString_inj by (auto simp: question_fallback_def)
    next
      assume "\<exists>r. s2 = question_fallback q2 @ ''-'' @ numberToString (int r)"
      then obtain r where "s2 = question_fallback q2 @ ''-'' @ numberToString (int r)" by blast
      then show ?thesis
        using a suffixed_numbers_differ(1) [OF n, of 0 "int r"]
        by (simp add: question_fallback_def)
    qed
  next
    assume "\<exists>r. s1 = question_fallback q1 @ ''-'' @ numberToString (int r)"
    then obtain r1 where a: "s1 = question_fallback q1 @ ''-'' @ numberToString (int r1)" by blast
    from s2 show ?thesis
    proof
      assume "s2 = question_fallback q2"
      then show ?thesis
        using a suffixed_numbers_differ(1) [OF m, of 0 "int r1"]
        by (simp add: question_fallback_def)
    next
      assume "\<exists>r. s2 = question_fallback q2 @ ''-'' @ numberToString (int r)"
      then obtain r where "s2 = question_fallback q2 @ ''-'' @ numberToString (int r)" by blast
      then show ?thesis
        using a suffixed_numbers_differ(2) [OF n, of "int r1" "int r"]
        by (simp add: question_fallback_def)
    qed
  qed
qed

section \<open>Properties of the fetch loop\<close>

lemma fetch_pages_first_page_limit:
  assumes "backend 1 = Questions qs" and "limited mq" and "limit_value mq \<le> int (length qs)"
  shows "fetch_pages mq backend [] 1 = Some (Inr qs)"
  using assms by (subst fetch_pages.simps) (simp add: reached_limit_def)

lemma fetch_pages_error:
  assumes "page \<le> p"
    and "\<forall>i \<in> {page..<p}. (\<exists>qs. backend i = Questions qs \<and> length qs = 1000)
        \<and> \<not> (limited mq \<and> int (length acc) + 1000 * (int i - int page + 1) \<ge> limit_value mq)"
    and "response_error (backend p) = Some e"
  shows "fetch_pages mq backend acc page = Some (Inl e)"
  using assms
proof (induction "p - page" arbitrary: page acc)
  case 0
  then have "page = p" by simp
  then show ?case using "0.prems"(3)
    by (subst fetch_pages.simps) (auto simp: response_error_def split: page_response.splits)
next
  case (Suc n)
  then have lt: "page < p" by simp
  then have "page \<in> {page..<p}" by simp
  with Suc.prems(2) obtain qs where qs: "backend page = Questions qs" "length qs = 1000"
      and nl: "\<not> (limited mq \<and> int (length acc) + 1000 \<ge> limit_value mq)"
    by fastforce
  have ih: "fetch_pages mq backend (acc @ qs) (page + 1) = Some (Inl e)"
  proof (rule Suc.hyps(1))
    show "n = p - (page + 1)" using Suc.hyps(2) by simp
    show "page + 1 \<le> p" using lt by simp
    show "response_error (backend p) = Some e" by (rule Suc.prems(3))
    show "\<forall>i \<in> {page + 1..<p}. (\<exists>qs. backend i = Questions qs \<and> length qs = 1000)
        \<and> \<not> (limited mq \<and> int (length (acc @ qs)) + 1000 * (int i - int (page + 1) + 1) \<ge> limit_value mq)"
    proof
      fix i assume i: "i \<in> {page + 1..<p}"
      then have "i \<in> {page..<p}" by simp
      with Suc.prems(2) have f: "(\<exists>qs. backend i = Questions qs \<and> length qs = 1000)
        \<and> \<not> (limited mq \<and> int (length acc) + 1000 * (int i - int page + 1) \<ge> limit_value mq)"
        by blast
      have eq: "int (length (acc @ qs)) + 1000 * (int i - int (page + 1) + 1)
          = int (length acc) + 1000 * (int i - int page + 1)"
        using qs(2) by simp
      show "(\<exists>qs. backend i = Questions qs \<and> length qs = 1000)
        \<and> \<not> (limited mq \<and> int (length (acc @ qs)) + 1000 * (int i - int (page + 1) + 1) \<ge> limit_value mq)"
        unfolding eq by (rule f)
    qed
  qed
  show ?case
    using qs nl ih by (subst fetch_pages.simps) (simp add: reached_limit_def)
qed

lemma fetch_pages_requested_error:
  assumes "requests_page mq backend p" and "1 \<le> p" and "response_error (backend p) = Some e"
  shows "fetch_pages mq backend [] 1 = Some (Inl e)"
proof (rule fetch_pages_error [where p = p and page = 1 and acc = "[]"])
  show "1 \<le> p" by (rule assms(2))
  show "response_error (backend p) = Some e" by (rule assms(3))
  show "\<forall>i \<in> {1..<p}. (\<exists>qs. backend i = Questions qs \<and> length qs = 1000)
        \<and> \<not> (limited mq \<and> int (length ([]::question list)) + 1000 * (int i - int 1 + 1) \<ge> limit_value mq)"
    using assms(1) by (simp add: requests_page_def)
qed

lemma generateKeywords_ordinary:
  assumes "ordinary_name (exam q)" and "ordinary_name (subExam q)"
  shows "\<exists>ks. generateKeywords q = Inr ks"
proof -
  obtain e where "examKeywords q = KeywordList e" using examKeywords_ordinary [OF assms] by blast
  then show ?thesis by (simp add: generateKeywords_def)
qed

lemma seo_loop_returns:
  assumes "\<forall>q \<in> set qs. ordinary_name (exam q) \<and> ordinary_name (subExam q)"
  shows "\<exists>m. seo_loop slugMap qs seoMap = Inr m"
  using assms
proof (induction qs arbitrary: seoMap)
  case Nil
  then show ?case by simp
next
  case (Cons q qs)
  then obtain ks where "generateKeywords q = Inr ks" using generateKeywords_ordinary by fastforce
  then show ?case using Cons by (simp add: generateQuestionSEO_def)
qed

lemma generateAllQuestionSEO_returns:
  assumes "distinct (map questionNumber qs)"
    and "\<forall>q \<in> set qs. ordinary_name (exam q) \<and> ordinary_name (subExam q)"
  shows "\<exists>m. generateAllQuestionSEO qs = Inr m"
proof -
  obtain slugMap where "generateAllSlugs qs = Some slugMap"
    using generateAllSlugs_lookup [OF assms(1)] by blast
  then show ?thesis using seo_loop_returns [OF assms(2)] by (simp add: generateAllQuestionSEO_def)
qed

lemma fetch_pages_short_page:
  assumes "backend 1 = Questions qs" and "length qs \<noteq> 1000"
  shows "fetch_pages None backend [] 1 = Some (Inr qs)"
  using assms by (subst fetch_pages.simps) (simp add: reached_limit_def limited_def)

section \<open>Slugs of questions that share a base slug\<close>

text \<open>
  Claim C1. For every list of questions with distinct question numbers,
  \<open>generateAllSlugs\<close> returns a map in which a question whose base slug is shared
  with another question of the list has the slug \<open>baseSlug-rank\<close>, where rank is the
  1-based position of its number in the ascending list of the numbers that share the
  base slug, and a question whose base slug no other question shares has the bare base
  slug. Hence two different questions with the same statement, exam and topic and no
  sub-exam always get different slugs.
\<close>

theorem generateAllSlugs_ranks:
  assumes "distinct (map questionNumber qs)"
  shows "\<exists>m. generateAllSlugs qs = Some m
     \<and> (\<forall>q \<in> set qs.
          sorted (colliding_numbers qs q) \<and> distinct (colliding_numbers qs q)
          \<and> (shares_base_slug qs q \<longrightarrow>
               (\<exists>r. 1 \<le> r \<and> r \<le> length (colliding_numbers qs q)
                  \<and> colliding_numbers qs q ! (r - 1) = questionNumber q
                  \<and> map_of m (questionNumber q) =
                      Some (buildBaseSlug q @ ''-'' @ numberToString (int r))))
          \<and> (\<not> shares_base_slug qs q \<longrightarrow> map_of m (questionNumber q) = Some (buildBaseSlug q)))
     \<and> (\<forall>q1 \<in> set qs. \<forall>q2 \<in> set qs.
          q1 \<noteq> q2 \<and> statement q1 = statement q2 \<and> exam q1 = exam q2 \<and> topic q1 = topic q2
          \<and> subExam q1 = None \<and> subExam q2 = None
          \<longrightarrow> map_of m (questionNumber q1) \<noteq> map_of m (questionNumber q2))"
proof -
  obtain m where m: "generateAllSlugs qs = Some m"
    and look: "\<forall>q \<in> set qs. map_of m (questionNumber q) =
            Some (if \<not> shares_base_slug qs q then buildBaseSlug q
                  else buildBaseSlug q @ ''-'' @
                       numberToString (indexOf (colliding_numbers qs q) (questionNumber q) + 1))"
    using generateAllSlugs_lookup [OF assms] by blast
  have ranked: "\<And>q. q \<in> set qs \<Longrightarrow> shares_base_slug qs q \<Longrightarrow>
      \<exists>r. 1 \<le> r \<and> r \<le> length (colliding_numbers qs q)
         \<and> colliding_numbers qs q ! (r - 1) = questionNumber q
         \<and> map_of m (questionNumber q) = Some (buildBaseSlug q @ ''-'' @ numberToString (int r))"
  proof -
    fix q assume q: "q \<in> set qs" and sh: "shares_base_slug qs q"
    obtain r where r: "1 \<le> r" "r \<le> length (colliding_numbers qs q)"
        "colliding_numbers qs q ! (r - 1) = questionNumber q"
        "indexOf (colliding_numbers qs q) (questionNumber q) + 1 = int r"
      using colliding_rank [OF q] by blast
    have "map_of m (questionNumber q) = Some (buildBaseSlug q @ ''-'' @ numberToString (int r))"
      using look q sh r(4) by simp
    with r(1-3) show "\<exists>r. 1 \<le> r \<and> r \<le> length (colliding_numbers qs q)
         \<and> colliding_numbers qs q ! (r - 1) = questionNumber q
         \<and> map_of m (questionNumber q) = Some (buildBaseSlug q @ ''-'' @ numberToString (int r))"
      by blast
  qed
  have bare: "\<And>q. q \<in> set qs \<Longrightarrow> \<not> shares_base_slug qs q \<Longrightarrow>
      map_of m (questionNumber q) = Some (buildBaseSlug q)"
    using look by simp
  have part1: "\<forall>q \<in> set qs.
          sorted (colliding_numbers qs q) \<and> distinct (colliding_numbers qs q)
          \<and> (shares_base_slug qs q \<longrightarrow>
               (\<exists>r. 1 \<le> r \<and> r \<le> length (colliding_numbers qs q)
                  \<and> colliding_numbers qs q ! (r - 1) = questionNumber q
                  \<and> map_of m (questionNumber q) =
                      Some (buildBaseSlug q @ ''-'' @ numberToString (int r))))
          \<and> (\<not> shares_base_slug qs q \<longrightarrow> map_of m (questionNumber q) = Some (buildBaseSlug q))"
    using ranked bare colliding_numbers_sorted_distinct [OF assms] by blast
  have part2: "\<forall>q1 \<in> set qs. \<forall>q2 \<in> set qs.
          q1 \<noteq> q2 \<and> statement q1 = statement q2 \<and> exam q1 = exam q2 \<and> topic q1 = topic q2
          \<and> subExam q1 = None \<and> subExam q2 = None
          \<longrightarrow> map_of m (questionNumber q1) \<noteq> map_of m (questionNumber q2)"
  proof (intro ballI impI)
    fix q1 q2
    assume q1: "q1 \<in> set qs" and q2: "q2 \<in> set qs"
      and h: "q1 \<noteq> q2 \<and> statement q1 = statement q2 \<and> exam q1 = exam q2 \<and> topic q1 = topic q2
          \<and> subExam q1 = None \<and> subExam q2 = None"
    have n: "questionNumber q1 \<noteq> questionNumber q2"
      using assms q1 q2 h by (auto simp: distinct_map inj_on_def)
    obtain s1 where s1: "map_of m (questionNumber q1) = Some s1"
        "s1 = buildBaseSlug q1 \<or> (\<exists>r. s1 = buildBaseSlug q1 @ ''-'' @ numberToString (int r))"
      using ranked [OF q1] bare [OF q1] by (cases "shares_base_slug qs q1") auto
    obtain s2 where s2: "map_of m (questionNumber q2) = Some s2"
        "s2 = buildBaseSlug q2 \<or> (\<exists>r. s2 = buildBaseSlug q2 @ ''-'' @ numberToString (int r))"
      using ranked [OF q2] bare [OF q2] by (cases "shares_base_slug qs q2") auto
    from buildBaseSlug_same_fields [of q1 q2] h
    have "buildBaseSlug q1 = buildBaseSlug q2
       \<or> (buildBaseSlug q1 = question_fallback q1 \<and> buildBaseSlug q2 = question_fallback q2)"
      by simp
    then have "s1 \<noteq> s2"
    proof
      assume e: "buildBaseSlug q1 = buildBaseSlug q2"
      then have c: "colliding_numbers qs q1 = colliding_numbers qs q2"
        by (simp add: colliding_numbers_def)
      have sh1: "shares_base_slug qs q1" using q2 h e
        by (auto simp: shares_base_slug_def list_ex_iff)
      have sh2: "shares_base_slug qs q2" using q1 h e
        by (auto simp: shares_base_slug_def list_ex_iff)
      obtain r1 where r1: "colliding_numbers qs q1 ! (r1 - 1) = questionNumber q1"
          "map_of m (questionNumber q1) = Some (buildBaseSlug q1 @ ''-'' @ numberToString (int r1))"
          "1 \<le> r1"
        using ranked [OF q1 sh1] by blast
      obtain r2 where r2: "colliding_numbers qs q2 ! (r2 - 1) = questionNumber q2"
          "map_of m (questionNumber q2) = Some (buildBaseSlug q2 @ ''-'' @ numberToString (int r2))"
          "1 \<le> r2"
        using ranked [OF q2 sh2] by blast
      have "r1 \<noteq> r2" using r1(1) r2(1) c n by auto
      then have "int r1 \<noteq> int r2" by simp
      then have "numberToString (int r1) \<noteq> numberToString (int r2)"
        using numberToString_inj by blast
      then show ?thesis using s1(1) s2(1) r1(2) r2(2) e by auto
    next
      assume f: "buildBaseSlug q1 = question_fallback q1 \<and> buildBaseSlug q2 = question_fallback q2"
      show ?thesis
        by (rule fallback_slugs_differ [OF n]) (use s1(2) s2(2) f in simp_all)
    qed
    then show "map_of m (questionNumber q1) \<noteq> map_of m (questionNumber q2)"
      using s1(1) s2(1) by simp
  qed
  show ?thesis using m part1 part2 by blast
qed

text \<open>
  The theorem at the two questions "What is 2+2?" of the specification, numbers 3 and
  9, with a third question between them.
\<close>

theorem generateAllSlugs_ranks_witness:
  "distinct (map questionNumber [q_cat9, q_hcf, q_cat])
   \<and> generateAllSlugs [q_cat9, q_hcf, q_cat] =
       Some [(9, ''what-is-22-cat-arithmetic-2''),
             (7, ''find-hcf-of-12-and-18-ssc-number-system''),
             (3, ''what-is-22-cat-arithmetic-1'')]
   \<and> shares_base_slug [q_cat9, q_hcf, q_cat] q_cat9
   \<and> \<not> shares_base_slug [q_cat9, q_hcf, q_cat] q_hcf
   \<and> colliding_numbers [q_cat9, q_hcf, q_cat] q_cat9 = [3, 9]
   \<and> q_cat \<noteq> q_cat9 \<and> statement q_cat = statement q_cat9 \<and> exam q_cat = exam q_cat9
   \<and> topic q_cat = topic q_cat9 \<and> subExam q_cat = None \<and> subExam q_cat9 = None
   \<and> (\<exists>m. generateAllSlugs [q_cat9, q_hcf, q_cat] = Some m
        \<and> map_of m (questionNumber q_cat) \<noteq> map_of m (questionNumber q_cat9))"
proof -
  have b9: "buildBaseSlug q_cat9 = ''what-is-22-cat-arithmetic''" by code_simp
  have b7: "buildBaseSlug q_hcf = ''find-hcf-of-12-and-18-ssc-number-system''" by code_simp
  have b3: "buildBaseSlug q_cat = ''what-is-22-cat-arithmetic''" by code_simp
  have n: "questionNumber q_cat9 = 9" "questionNumber q_hcf = 7" "questionNumber q_cat = 3"
    by (simp_all add: q_cat9_def q_hcf_def q_cat_def)
  have p: "numberToString 1 = ''1''" "numberToString 2 = ''2''" by code_simp+
  have ne: "q_cat \<noteq> q_cat9" "q_hcf \<noteq> q_cat9" "q_cat9 \<noteq> q_hcf" "q_cat \<noteq> q_hcf"
    by (simp_all add: q_cat9_def q_hcf_def q_cat_def)
  have d: "distinct (map questionNumber [q_cat9, q_hcf, q_cat])" by (simp add: n)
  have c: "baseSlugCounts [q_cat9, q_hcf, q_cat] =
      [(''what-is-22-cat-arithmetic'', [9, 3]), (''find-hcf-of-12-and-18-ssc-number-system'', [7])]"
    by (simp add: baseSlugCounts_def push_to_bucket_def b9 b7 b3 n)
  have g: "generateAllSlugs [q_cat9, q_hcf, q_cat] =
       Some [(9, ''what-is-22-cat-arithmetic-2''),
             (7, ''find-hcf-of-12-and-18-ssc-number-system''),
             (3, ''what-is-22-cat-arithmetic-1'')]"
    by (simp add: generateAllSlugs_def c final_slug_def b9 b7 b3 n p Let_def)
  have s: "shares_base_slug [q_cat9, q_hcf, q_cat] q_cat9
   \<and> \<not> shares_base_slug [q_cat9, q_hcf, q_cat] q_hcf
   \<and> colliding_numbers [q_cat9, q_hcf, q_cat] q_cat9 = [3, 9]"
    using ne by (simp add: shares_base_slug_def colliding_numbers_def b9 b7 b3 n)
  have f: "q_cat \<noteq> q_cat9 \<and> statement q_cat = statement q_cat9 \<and> exam q_cat = exam q_cat9
   \<and> topic q_cat = topic q_cat9 \<and> subExam q_cat = None \<and> subExam q_cat9 = None"
    by (simp add: q_cat9_def q_cat_def)
  have mem: "q_cat \<in> set [q_cat9, q_hcf, q_cat]" "q_cat9 \<in> set [q_cat9, q_hcf, q_cat]"
    by simp_all
  from generateAllSlugs_ranks [OF d] mem f
  have "\<exists>m. generateAllSlugs [q_cat9, q_hcf, q_cat] = Some m
        \<and> map_of m (questionNumber q_cat) \<noteq> map_of m (questionNumber q_cat9)"
    by blast
  with d g s f show ?thesis by blast
qed

section \<open>A fetch with a limit of 50\<close>

text \<open>
  Claim C2. Against a backend whose pages hold 1000 questions each,
  \<open>fetchAllQuestions(50)\<close> returns a new list of exactly 50 questions, the first 50
  of page 1, whatever the caches hold, and it leaves \<open>questionsCache\<close> and
  \<open>fetchPromise\<close> as they were.
\<close>

theorem fetchAllQuestions_limit_50:
  assumes "\<forall>p. \<exists>qs. backend p = Questions qs \<and> length qs = 1000"
  shows "\<exists>a s' qs. fetchAllQuestions (Some 50) backend s = Some (Inr a, s')
     \<and> backend 1 = Questions qs
     \<and> a = length (arrays s) \<and> arrays s' = arrays s @ [take 50 qs]
     \<and> arrays s' ! a = take 50 qs \<and> length (arrays s' ! a) = 50
     \<and> questionsCache s' = questionsCache s \<and> fetchPromise s' = fetchPromise s"
proof -
  obtain qs where qs: "backend 1 = Questions qs" "length qs = 1000" using assms by blast
  have l: "limited (Some 50)" "limit_value (Some 50) = 50"
    by (simp_all add: limited_def limit_value_def)
  have "fetch_pages (Some 50) backend [] 1 = Some (Inr qs)"
    using qs l by (intro fetch_pages_first_page_limit) simp_all
  then have "fetchAllQuestions (Some 50) backend s =
      Some (Inr (length (arrays s)), s\<lparr>arrays := arrays s @ [take 50 qs]\<rparr>)"
    using l by (simp add: fetchAllQuestions_def cached_result_def fetchLogic_def slice0_def Let_def)
  then show ?thesis using qs by (simp add: nth_append)
qed

text \<open>
  The theorem at a backend whose pages are 1000 copies of one question, in the state
  in which an earlier fetch has filled both caches.
\<close>

theorem fetchAllQuestions_limit_50_witness:
  "(\<forall>p. \<exists>qs. (\<lambda>p. Questions (replicate 1000 q_hcf)) p = Questions qs \<and> length qs = 1000)
   \<and> (\<exists>a s'. fetchAllQuestions (Some 50) (\<lambda>p. Questions (replicate 1000 q_hcf)) cached_state
          = Some (Inr a, s')
        \<and> a = 1 \<and> arrays s' ! a = replicate 50 q_hcf \<and> length (arrays s' ! a) = 50
        \<and> questionsCache s' = Some 0 \<and> fetchPromise s' = Some (Fulfilled 0))"
proof -
  have h: "\<forall>p. \<exists>qs. (\<lambda>p. Questions (replicate 1000 q_hcf)) p = Questions qs \<and> length qs = 1000"
    by simp
  from fetchAllQuestions_limit_50 [OF h, of cached_state]
  have "\<exists>a s'. fetchAllQuestions (Some 50) (\<lambda>p. Questions (replicate 1000 q_hcf)) cached_state
          = Some (Inr a, s')
        \<and> a = 1 \<and> arrays s' ! a = replicate 50 q_hcf \<and> length (arrays s' ! a) = 50
        \<and> questionsCache s' = Some 0 \<and> fetchPromise s' = Some (Fulfilled 0)"
    by (auto simp: cached_state_def)
  with h show ?thesis by blast
qed

section \<open>A fetch that fails\<close>

text \<open>
  Claim C3 says that after every run in which a page request fails,
  \<open>questionsCache\<close> is unset and \<open>fetchPromise\<close> is \<open>null\<close>, so that the next call
  fetches from page 1. A call with a limit does not touch the caches: when an earlier
  call without limit has filled them, a failing call with a limit leaves them filled,
  and the next call without limit is answered from the cache.
\<close>

theorem fetchAllQuestions_failure_counterexample:
  "fetchAllQuestions None (\<lambda>p. Questions [q_hcf]) initial_state = Some (Inr 0, cached_state)
   \<and> response_error (Status 500) = Some (HttpError 500)
   \<and> fetchAllQuestions (Some 50) (\<lambda>p. Status 500) cached_state = Some (Inl (HttpError 500), cached_state)
   \<and> questionsCache cached_state = Some 0 \<and> fetchPromise cached_state = Some (Fulfilled 0)
   \<and> fetchAllQuestions None (\<lambda>p. Questions [q_cat]) cached_state = Some (Inr 0, cached_state)"
proof -
  have 1: "fetch_pages None (\<lambda>p. Questions [q_hcf]) [] 1 = Some (Inr [q_hcf])"
    by (subst fetch_pages.simps) (simp add: reached_limit_def limited_def)
  have 2: "fetch_pages (Some 50) (\<lambda>p. Status 500) [] 1 = Some (Inl (HttpError 500))"
    by (subst fetch_pages.simps) simp
  show ?thesis
    using 1 2
    by (simp add: fetchAllQuestions_def fetchLogic_def cached_result_def limited_def
        initial_state_def cached_state_def response_error_def in_flight_def Let_def)
qed

text \<open>
  Claim C3, amended. For every run of \<open>fetchAllQuestions\<close> that is not answered from
  the caches and in which a page it requests yields a status that is not a success or
  a body without an array of questions (or the request or the parsing fails), the
  call throws that error and stores no list, partial or not. A call without limit
  fetches its pages while \<open>fetchPromise\<close> holds the pending promise of the fetch; the
  failure resets \<open>fetchPromise\<close> to \<open>null\<close> and leaves \<open>questionsCache\<close> unset, so the
  state is again the one before the call. A call with a limit leaves both caches, and
  the whole state, exactly as they were. In both cases the next call of the same kind
  is not answered from the caches either: it fetches from page 1.
\<close>

theorem fetchAllQuestions_failure:
  assumes "cached_result mq s = None" and "requests_page mq backend p" and "1 \<le> p"
    and "response_error (backend p) = Some e"
  shows "\<exists>s'. fetchAllQuestions mq backend s = Some (Inl e, s')
     \<and> arrays s' = arrays s \<and> questionsCache s' = questionsCache s
     \<and> (if limited mq then s' = s
         else fetchLogic mq backend (in_flight s) = Some (Inl e, in_flight s)
            \<and> fetchPromise (in_flight s) = Some Pending
            \<and> questionsCache s' = None \<and> fetchPromise s' = None \<and> s' = s)
     \<and> cached_result mq s' = None
     \<and> (\<forall>backend2. fetchAllQuestions mq backend2 s' =
           (if limited mq then fetchLogic mq backend2 s'
            else (case fetchLogic mq backend2 (in_flight s') of
                    None \<Rightarrow> None
                  | Some (Inl e2, s2) \<Rightarrow> Some (Inl e2, s2\<lparr>fetchPromise := None\<rparr>)
                  | Some (Inr a, s2) \<Rightarrow> Some (Inr a, s2\<lparr>fetchPromise := Some (Fulfilled a)\<rparr>))))"
proof (cases "limited mq")
  case True
  then have "fetchAllQuestions mq backend s = Some (Inl e, s)"
    using assms(1) fetch_pages_requested_error [OF assms(2-4)]
    by (simp add: fetchAllQuestions_def fetchLogic_def)
  moreover have "\<forall>backend2. fetchAllQuestions mq backend2 s = fetchLogic mq backend2 s"
    using True assms(1) by (simp add: fetchAllQuestions_def)
  ultimately show ?thesis using True assms(1) by simp
next
  case False
  then have c: "questionsCache s = None" "fetchPromise s = None"
    using assms(1) by (auto simp: cached_result_def split: if_splits)
  have r: "s\<lparr>fetchPromise := None\<rparr> = s" using c(2) by simp
  have l: "fetchLogic mq backend (in_flight s) = Some (Inl e, in_flight s)"
    using fetch_pages_requested_error [OF assms(2-4)] by (simp add: fetchLogic_def)
  then have "fetchAllQuestions mq backend s = Some (Inl e, (in_flight s)\<lparr>fetchPromise := None\<rparr>)"
    using False assms(1) by (simp add: fetchAllQuestions_def)
  then have f: "fetchAllQuestions mq backend s = Some (Inl e, s)"
    using r by (simp add: in_flight_def)
  have n: "\<forall>backend2. fetchAllQuestions mq backend2 s =
           (case fetchLogic mq backend2 (in_flight s) of
                    None \<Rightarrow> None
                  | Some (Inl e2, s2) \<Rightarrow> Some (Inl e2, s2\<lparr>fetchPromise := None\<rparr>)
                  | Some (Inr a, s2) \<Rightarrow> Some (Inr a, s2\<lparr>fetchPromise := Some (Fulfilled a)\<rparr>))"
    using False assms(1) by (simp add: fetchAllQuestions_def)
  show ?thesis
    by (rule exI [of _ s]) (use False c f l n assms(1) in \<open>simp add: in_flight_def\<close>)
qed

text \<open>
  The theorem at a fetch without limit whose second page answers with status 503, and
  at a fetch with limit 50, in the state with filled caches, whose first page has a
  malformed body.
\<close>

theorem fetchAllQuestions_failure_witness:
  "cached_result None initial_state = None
   \<and> requests_page None (\<lambda>p. if p = 1 then Questions (replicate 1000 q_hcf) else Status 503) 2
   \<and> response_error (Status 503) = Some (HttpError 503)
   \<and> fetchAllQuestions None (\<lambda>p. if p = 1 then Questions (replicate 1000 q_hcf) else Status 503)
        initial_state = Some (Inl (HttpError 503), initial_state)
   \<and> fetchPromise (in_flight initial_state) = Some Pending
   \<and> fetchPromise initial_state = None
   \<and> cached_result (Some 50) cached_state = None
   \<and> requests_page (Some 50) (\<lambda>p. Malformed) 1
   \<and> response_error Malformed = Some InvalidFormat
   \<and> fetchAllQuestions (Some 50) (\<lambda>p. Malformed) cached_state = Some (Inl InvalidFormat, cached_state)"
proof -
  let ?b = "\<lambda>p::nat. if p = 1 then Questions (replicate 1000 q_hcf) else Status 503"
  have c1: "cached_result None initial_state = None"
    by (simp add: cached_result_def initial_state_def)
  have r1: "requests_page None ?b 2"
    by (simp add: requests_page_def limited_def)
  have e1: "response_error (?b 2) = Some (HttpError 503)"
    by (simp add: response_error_def)
  have one: "(1::nat) \<le> 2" by simp
  from fetchAllQuestions_failure [OF c1 r1 one e1]
  have f1: "fetchAllQuestions None ?b initial_state = Some (Inl (HttpError 503), initial_state)"
      and p1: "fetchPromise (in_flight initial_state) = Some Pending"
    by (auto simp: limited_def)
  have i1: "fetchPromise initial_state = None" by (simp add: initial_state_def)
  have c2: "cached_result (Some 50) cached_state = None"
    by (simp add: cached_result_def limited_def)
  have r2: "requests_page (Some 50) (\<lambda>p. Malformed) 1"
    by (simp add: requests_page_def)
  have e2: "response_error ((\<lambda>p::nat. Malformed) 1) = Some InvalidFormat"
    by (simp add: response_error_def)
  have one': "(1::nat) \<le> 1" by simp
  from fetchAllQuestions_failure [OF c2 r2 one' e2]
  have f2: "fetchAllQuestions (Some 50) (\<lambda>p. Malformed) cached_state = Some (Inl InvalidFormat, cached_state)"
    by (auto simp: limited_def)
  show ?thesis using c1 r1 e1 f1 p1 i1 c2 r2 e2 f2 by simp
qed

section \<open>The sitemap assembler and the fetched list\<close>

text \<open>
  Claim C4 says that the sitemap assembler leaves the list returned by
  \<open>fetchAllQuestions\<close>, and the order of its elements, unchanged. The code does not:
  \<open>GET\<close> sorts that list in place, and the list is the array that
  \<open>questionsCache\<close> refers to. For a backend with the two questions "What is 2+2?",
  number 3 updated in January and number 9 updated in June, and any clock that puts
  January before June, the list is fetched in the order 3, 9; after \<open>GET\<close> the cached
  list is in the order 9, 3, and that is what the next \<open>fetchAllQuestions()\<close> returns.
\<close>

theorem GET_reorders_fetched_list:
  assumes "getTime ''2024-01-01'' < getTime ''2024-06-01''"
  shows "\<exists>s1 urls s2.
      fetchAllQuestions None (\<lambda>p. Questions [q_cat, q_cat9]) initial_state = Some (Inr 0, s1)
      \<and> questionsCache s1 = Some 0 \<and> arrays s1 ! 0 = [q_cat, q_cat9]
      \<and> GET getTime (\<lambda>p. Questions [q_cat, q_cat9]) initial_state = Some (Inr urls, s2)
      \<and> questionsCache s2 = Some 0 \<and> arrays s2 ! 0 = [q_cat9, q_cat]
      \<and> arrays s2 ! 0 \<noteq> arrays s1 ! 0
      \<and> fetchAllQuestions None (\<lambda>p. Questions [q_cat, q_cat9]) s2 = Some (Inr 0, s2)"
proof -
  let ?b = "\<lambda>p::nat. Questions [q_cat, q_cat9]"
  let ?s1 = "\<lparr>arrays = [[q_cat, q_cat9]], questionsCache = Some 0, fetchPromise = Some (Fulfilled 0)\<rparr>"
  let ?s2 = "\<lparr>arrays = [[q_cat9, q_cat]], questionsCache = Some 0, fetchPromise = Some (Fulfilled 0)\<rparr>"
  have p: "fetch_pages None ?b [] 1 = Some (Inr [q_cat, q_cat9])"
    by (rule fetch_pages_short_page) simp_all
  have f: "fetchAllQuestions None ?b initial_state = Some (Inr 0, ?s1)"
    using p by (simp add: fetchAllQuestions_def cached_result_def fetchLogic_def limited_def
        initial_state_def in_flight_def Let_def)
  have n: "questionNumber q_cat = 3" "questionNumber q_cat9 = 9"
    "updatedAt q_cat = ''2024-01-01''" "updatedAt q_cat9 = ''2024-06-01''"
    by (simp_all add: q_cat_def q_cat9_def)
  have o: "\<forall>q \<in> set [q_cat, q_cat9]. ordinary_name (exam q) \<and> ordinary_name (subExam q)"
    by (simp add: q_cat_def q_cat9_def ordinary_name_def or_empty_def prototype_functions_def)
  obtain seoMap where seo: "generateAllQuestionSEO [q_cat, q_cat9] = Inr seoMap"
    using generateAllQuestionSEO_returns [OF _ o] n by auto
  have srt: "sort_key (\<lambda>q. - getTime (updatedAt q)) [q_cat, q_cat9] = [q_cat9, q_cat]"
    using assms by (simp add: n)
  have "\<exists>urls. GET getTime ?b initial_state = Some (Inr urls, ?s2)"
    using f seo srt by (simp add: GET_def Let_def)
  then obtain urls where g: "GET getTime ?b initial_state = Some (Inr urls, ?s2)" by blast
  have ne: "[q_cat9, q_cat] \<noteq> [q_cat, q_cat9]" by (simp add: q_cat_def q_cat9_def)
  have again: "fetchAllQuestions None ?b ?s2 = Some (Inr 0, ?s2)"
    by (simp add: fetchAllQuestions_def cached_result_def limited_def)
  show ?thesis using f g ne again by simp
qed

text \<open>The theorem with the times in milliseconds of the two dates.\<close>

theorem GET_reorders_fetched_list_witness:
  "getTime_sample ''2024-01-01'' < getTime_sample ''2024-06-01''
   \<and> (\<exists>s1 urls s2.
      fetchAllQuestions None (\<lambda>p. Questions [q_cat, q_cat9]) initial_state = Some (Inr 0, s1)
      \<and> arrays s1 ! 0 = [q_cat, q_cat9]
      \<and> GET getTime_sample (\<lambda>p. Questions [q_cat, q_cat9]) initial_state = Some (Inr urls, s2)
      \<and> questionsCache s2 = Some 0 \<and> arrays s2 ! 0 = [q_cat9, q_cat])"
proof -
  have h: "getTime_sample ''2024-01-01'' < getTime_sample ''2024-06-01''"
    by (simp add: getTime_sample_def)
  from GET_reorders_fetched_list [OF h] h show ?thesis by blast
qed

section \<open>Title of a question whose statement is an image\<close>

text \<open>
  Claim C5 says that \<open>generateTitle\<close> replaces the statement by
  \<open>"<topic> Question"\<close> whenever \<open>isImageUrl\<close> classifies the statement as an image
  reference. The statement \<open>diagram.png\<close> is classified as an image reference (it ends
  with an image file extension), and \<open>generateTitle\<close> keeps it as written.
\<close>

theorem generateTitle_image_counterexample:
  "isImageUrl (statement q_png)
   \<and> generateTitle q_png = ''diagram.png | CAT Easy | Geometry''
   \<and> title_from (template (topic q_png) @ '' Question'') q_png = ''Geometry Question | CAT Easy | Geometry''
   \<and> generateTitle q_png \<noteq> title_from (template (topic q_png) @ '' Question'') q_png"
  by code_simp

text \<open>
  Claim C5, amended. \<open>generateTitle\<close> tests the statement with
  \<open>startsWith('http')\<close> and not with \<open>isImageUrl\<close>: for every question whose
  statement is a string that starts with the four characters \<open>http\<close>, and so for
  every statement that starts with \<open>http://\<close> or \<open>https://\<close> (which
  \<open>isImageUrl\<close> classifies as an image reference), the title is built around
  \<open>"<topic> Question"\<close>; for every other string statement it is built around the
  statement as written.
\<close>

theorem generateTitle_http_statement:
  "(statement q = Text s \<and> startsWith s ''http''
      \<longrightarrow> generateTitle q = title_from (template (topic q) @ '' Question'') q)
   \<and> (statement q = Text s \<and> (startsWith s ''http://'' \<or> startsWith s ''https://'')
      \<longrightarrow> isImageUrl (statement q)
        \<and> generateTitle q = title_from (template (topic q) @ '' Question'') q)
   \<and> (statement q = Text s \<and> \<not> startsWith s ''http'' \<longrightarrow> generateTitle q = title_from s q)"
proof -
  have a: "statement q = Text s \<and> startsWith s ''http''
      \<longrightarrow> generateTitle q = title_from (template (topic q) @ '' Question'') q"
    by (simp add: generateTitle_def title_statementText_def)
  have l: "toLowerCase ''http://'' = ''http://''" "toLowerCase ''https://'' = ''https://''"
    by code_simp+
  have b: "statement q = Text s \<and> (startsWith s ''http://'' \<or> startsWith s ''https://'')
      \<longrightarrow> isImageUrl (statement q)"
    using startsWith_toLowerCase [of s "''http://''"] startsWith_toLowerCase [of s "''https://''"] l
    by (simp add: isImageUrl_def Let_def) blast
  have c: "statement q = Text s \<and> \<not> startsWith s ''http'' \<longrightarrow> generateTitle q = title_from s q"
    by (simp add: generateTitle_def title_statementText_def)
  show ?thesis using a b c startsWith_http_scheme by blast
qed

text \<open>The theorem at a statement that is a URL, and at the statement \<open>diagram.png\<close>.\<close>

theorem generateTitle_http_statement_witness:
  "statement q_http = Text ''https://res.cloudinary.com/a/q12.png''
   \<and> startsWith ''https://res.cloudinary.com/a/q12.png'' ''https://''
   \<and> startsWith ''https://res.cloudinary.com/a/q12.png'' ''http''
   \<and> isImageUrl (statement q_http)
   \<and> generateTitle q_http = ''Geometry Question | CAT Easy | Geometry''
   \<and> statement q_png = Text ''diagram.png'' \<and> \<not> startsWith ''diagram.png'' ''http''
   \<and> generateTitle q_png = ''diagram.png | CAT Easy | Geometry''"
proof -
  have h: "statement q_http = Text ''https://res.cloudinary.com/a/q12.png''
   \<and> startsWith ''https://res.cloudinary.com/a/q12.png'' ''https://''
   \<and> startsWith ''https://res.cloudinary.com/a/q12.png'' ''http''"
    by code_simp
  have p: "statement q_png = Text ''diagram.png'' \<and> \<not> startsWith ''diagram.png'' ''http''"
    by code_simp
  have t: "title_from (template (topic q_http) @ '' Question'') q_http = ''Geometry Question | CAT Easy | Geometry''"
    by code_simp
  have u: "title_from ''diagram.png'' q_png = ''diagram.png | CAT Easy | Geometry''"
    by code_simp
  from generateTitle_http_statement [of q_http "''https://res.cloudinary.com/a/q12.png''"] h t
  have 1: "isImageUrl (statement q_http) \<and> generateTitle q_http = ''Geometry Question | CAT Easy | Geometry''"
    by simp
  from generateTitle_http_statement [of q_png "''diagram.png''"] p u
  have 2: "generateTitle q_png = ''diagram.png | CAT Easy | Geometry''"
    by simp
  from h p 1 2 show ?thesis by simp
qed

section \<open>Shape of a base slug\<close>

text \<open>
  Claim C6 says that for every question the string returned by \<open>buildBaseSlug\<close>
  contains only characters of \<open>[a-z0-9-]\<close>. The fallback
  \<open>question-<questionNumber>\<close> is returned as the template literal prints it, without
  sanitization: for a question without topic whose number is \<open>1e21\<close> it is
  \<open>question-1e+21\<close>, with a plus sign.
\<close>

theorem buildBaseSlug_shape_counterexample:
  "buildBaseSlug q_big = ''question-1e+21''
   \<and> CHR ''+'' \<in> set (buildBaseSlug q_big) \<and> \<not> is_slug_char CHR ''+''"
proof -
  have "buildBaseSlug q_big = ''question-1e+21''"
    by (simp add: buildBaseSlug_def q_big_def truthy_def question_fallback_def numberToString_1e21)
  moreover have "\<not> is_slug_char CHR ''+''" by (simp add: is_slug_char_def is_az09_def)
  ultimately show ?thesis by simp
qed

text \<open>
  Claim C6, amended. For every question, the parts joined by \<open>buildBaseSlug\<close> have
  length at most 200 (at most 143, in fact), so the length check never replaces the
  slug by its \<open>-q<questionNumber>\<close> form, and the returned string is not empty and
  neither starts nor ends with a hyphen. The returned string has length at most 200
  and consists of characters of \<open>[a-z0-9-]\<close> only whenever it is not the fallback
  \<open>question-<questionNumber>\<close>, and also whenever the question number is an integer
  of magnitude below \<open>10^21\<close>, which is printed in plain decimal.
\<close>

theorem buildBaseSlug_shape:
  "length (joined_slug q) \<le> 200 \<and> capped_slug q = joined_slug q
   \<and> (\<bar>questionNumber q\<bar> < 10 ^ 21 \<or> buildBaseSlug q \<noteq> question_fallback q
        \<longrightarrow> length (buildBaseSlug q) \<le> 200 \<and> (\<forall>c \<in> set (buildBaseSlug q). is_slug_char c))
   \<and> buildBaseSlug q \<noteq> []
   \<and> hd (buildBaseSlug q) \<noteq> CHR ''-'' \<and> last (buildBaseSlug q) \<noteq> CHR ''-''"
proof -
  have j: "length (joined_slug q) \<le> 200"
    using length_joined_slug [of q] by simp
  have shape: "\<bar>questionNumber q\<bar> < 10 ^ 21 \<or> buildBaseSlug q \<noteq> question_fallback q
        \<longrightarrow> length (buildBaseSlug q) \<le> 200 \<and> (\<forall>c \<in> set (buildBaseSlug q). is_slug_char c)"
  proof
    assume a: "\<bar>questionNumber q\<bar> < 10 ^ 21 \<or> buildBaseSlug q \<noteq> question_fallback q"
    from buildBaseSlug_cases [of q]
    show "length (buildBaseSlug q) \<le> 200 \<and> (\<forall>c \<in> set (buildBaseSlug q). is_slug_char c)"
    proof
      assume f: "buildBaseSlug q = question_fallback q"
      with a have n: "\<bar>questionNumber q\<bar> < 10 ^ 21" by simp
      show ?thesis
        using f question_fallback_length [OF n] question_fallback_chars [OF n] by simp
    next
      assume "buildBaseSlug q = final_sanitize (joined_slug q) \<and> final_sanitize (joined_slug q) \<noteq> []"
      then show ?thesis
        using length_final_sanitize [of "joined_slug q"] j final_sanitize_chars [of "joined_slug q"]
        by simp
    qed
  qed
  have ends: "buildBaseSlug q \<noteq> [] \<and> hd (buildBaseSlug q) \<noteq> CHR ''-'' \<and> last (buildBaseSlug q) \<noteq> CHR ''-''"
    using buildBaseSlug_cases [of q] question_fallback_ends [of q]
      final_sanitize_ends [of "joined_slug q"] by auto
  show ?thesis using j shape ends capped_slug_eq by simp
qed

text \<open>
  The theorem at the question "Find HCF of 12 and 18" of the specification, and at a
  question of symbols only, number 7, whose slug is the fallback.
\<close>

theorem buildBaseSlug_shape_witness:
  "buildBaseSlug q_hcf = ''find-hcf-of-12-and-18-ssc-number-system''
   \<and> \<bar>questionNumber q_hcf\<bar> < 10 ^ 21 \<and> buildBaseSlug q_hcf \<noteq> question_fallback q_hcf
   \<and> length (buildBaseSlug q_hcf) \<le> 200
   \<and> CHR ''f'' \<in> set (buildBaseSlug q_hcf) \<and> is_slug_char CHR ''f''
   \<and> hd (buildBaseSlug q_hcf) \<noteq> CHR ''-'' \<and> last (buildBaseSlug q_hcf) \<noteq> CHR ''-''
   \<and> buildBaseSlug q_symbols = ''question-7'' \<and> \<bar>questionNumber q_symbols\<bar> < 10 ^ 21
   \<and> buildBaseSlug q_symbols = question_fallback q_symbols
   \<and> length (buildBaseSlug q_symbols) \<le> 200
   \<and> CHR ''7'' \<in> set (buildBaseSlug q_symbols) \<and> is_slug_char CHR ''7''"
proof -
  have e: "buildBaseSlug q_hcf = ''find-hcf-of-12-and-18-ssc-number-system''" by code_simp
  have n: "\<bar>questionNumber q_hcf\<bar> < 10 ^ 21" by (simp add: q_hcf_def)
  have nf: "buildBaseSlug q_hcf \<noteq> question_fallback q_hcf"
    unfolding e by (simp add: question_fallback_def)
  have m: "CHR ''f'' \<in> set (buildBaseSlug q_hcf)" unfolding e by simp
  from buildBaseSlug_shape [of q_hcf] n m
  have 1: "length (buildBaseSlug q_hcf) \<le> 200 \<and> is_slug_char CHR ''f''
     \<and> hd (buildBaseSlug q_hcf) \<noteq> CHR ''-'' \<and> last (buildBaseSlug q_hcf) \<noteq> CHR ''-''"
    by blast
  have e2: "buildBaseSlug q_symbols = ''question-7''" by code_simp
  have f2: "question_fallback q_symbols = ''question-7''" by code_simp
  have n2: "\<bar>questionNumber q_symbols\<bar> < 10 ^ 21" by (simp add: q_symbols_def)
  have m2: "CHR ''7'' \<in> set (buildBaseSlug q_symbols)" unfolding e2 by simp
  from buildBaseSlug_shape [of q_symbols] n2 m2
  have 2: "length (buildBaseSlug q_symbols) \<le> 200 \<and> is_slug_char CHR ''7''"
    by blast
  from e n nf m 1 e2 f2 n2 m2 2 show ?thesis by simp
qed

section \<open>Order of the keywords\<close>

text \<open>
  Claim C7 says that the exam-specific keywords come before the universal keywords.
  The list is \<open>[...new Set(...)]\<close>, which keeps a keyword where it occurs first: for a
  question of exam CAT with the tag PYQ, the universal keyword \<open>pyq\<close> is listed among
  the hierarchical keywords, at index 5, before the exam-specific keyword
  \<open>cat pyq\<close> at index 6.
\<close>

theorem generateKeywords_order_counterexample:
  "generateKeywords q_cat =
       Inr [''cat'', ''quant'', ''arithmetic'', ''mcq'', ''easy'', ''pyq'',
            ''cat pyq'', ''cat previous year questions'', ''cat quant questions'',
            ''cat aptitude practice'', ''cat exam preparation'',
            ''aptitude questions'', ''aptitude practice'', ''previous year questions'',
            ''quantitative aptitude'', ''logical reasoning questions'',
            ''competitive exam questions'']
   \<and> ''pyq'' \<in> set UNIVERSAL_KEYWORDS
   \<and> getExamSpecificKeywords ''CAT'' None =
        KeywordList [''cat pyq'', ''cat previous year questions'', ''cat quant questions'',
            ''cat aptitude practice'', ''cat exam preparation'']
   \<and> [''cat'', ''quant'', ''arithmetic'', ''mcq'', ''easy'', ''pyq'',
            ''cat pyq'', ''cat previous year questions'', ''cat quant questions'',
            ''cat aptitude practice'', ''cat exam preparation'',
            ''aptitude questions'', ''aptitude practice'', ''previous year questions'',
            ''quantitative aptitude'', ''logical reasoning questions'',
            ''competitive exam questions''] ! 5 = ''pyq''
   \<and> [''cat'', ''quant'', ''arithmetic'', ''mcq'', ''easy'', ''pyq'',
            ''cat pyq'', ''cat previous year questions'', ''cat quant questions'',
            ''cat aptitude practice'', ''cat exam preparation'',
            ''aptitude questions'', ''aptitude practice'', ''previous year questions'',
            ''quantitative aptitude'', ''logical reasoning questions'',
            ''competitive exam questions''] ! 6 = ''cat pyq''"
  by code_simp

text \<open>
  Claim C7, amended. The hierarchical keywords of a question are its exam, sub-exam,
  section, category, topic, type and difficulty, in this order, followed by its tags,
  all in lower case, without those that are missing or empty. Whenever the exam and
  the sub-exam are not names of properties that the keyword table inherits,
  \<open>generateKeywords\<close> returns the hierarchical keywords, then the exam-specific
  keywords (looked up by exam, then by sub-exam, with \<open>_default\<close> otherwise), then the
  universal keywords, each keyword kept where it occurs first. Every list that
  \<open>generateKeywords\<close> returns has no duplicate entry and consists of three consecutive
  blocks: the hierarchical keywords, then the exam-specific keywords that are not
  hierarchical ones, then the universal keywords that are neither. So every
  hierarchical keyword stands before every keyword that is not one, and every
  hierarchical or exam-specific keyword stands before every keyword that is neither;
  a universal keyword that is also a tag or an exam-specific keyword stands in the
  earlier block.
\<close>

theorem generateKeywords_order:
  "hierarchicalKeywords q =
     filter (\<lambda>s. s \<noteq> [])
       (map (\<lambda>v. toLowerCase (or_empty v))
          [exam q, subExam q, section_of q, category q, topic q, qtype q, difficulty q]
        @ map toLowerCase (case tags q of None \<Rightarrow> [] | Some ts \<Rightarrow> ts))
   \<and> (ordinary_name (exam q) \<and> ordinary_name (subExam q) \<longrightarrow>
        examKeywords q = KeywordList (curated_keywords q)
        \<and> generateKeywords q =
            Inr (new_Set (hierarchicalKeywords q @ curated_keywords q @ UNIVERSAL_KEYWORDS)))
   \<and> (generateKeywords q = Inr ks \<longrightarrow>
        distinct ks
        \<and> (\<exists>e. examKeywords q = KeywordList e
             \<and> set ks = set (hierarchicalKeywords q) \<union> set e \<union> set UNIVERSAL_KEYWORDS
             \<and> ks = new_Set (hierarchicalKeywords q)
                 @ new_Set (filter (\<lambda>x. x \<notin> set (hierarchicalKeywords q)) e)
                 @ new_Set (filter (\<lambda>x. x \<notin> set (hierarchicalKeywords q) \<and> x \<notin> set e) UNIVERSAL_KEYWORDS)
             \<and> (\<forall>i j. i < length ks \<and> j < length ks \<and> ks ! i \<in> set (hierarchicalKeywords q)
                    \<and> ks ! j \<notin> set (hierarchicalKeywords q) \<longrightarrow> i < j)
             \<and> (\<forall>i j. i < length ks \<and> j < length ks \<and> ks ! i \<in> set (hierarchicalKeywords q) \<union> set e
                    \<and> ks ! j \<notin> set (hierarchicalKeywords q) \<union> set e \<longrightarrow> i < j)))"
proof -
  have curated: "ordinary_name (exam q) \<and> ordinary_name (subExam q) \<longrightarrow>
        examKeywords q = KeywordList (curated_keywords q)
        \<and> generateKeywords q =
            Inr (new_Set (hierarchicalKeywords q @ curated_keywords q @ UNIVERSAL_KEYWORDS))"
  proof
    assume "ordinary_name (exam q) \<and> ordinary_name (subExam q)"
    then have "examKeywords q = KeywordList (curated_keywords q)"
      using examKeywords_curated by blast
    then show "examKeywords q = KeywordList (curated_keywords q)
        \<and> generateKeywords q =
            Inr (new_Set (hierarchicalKeywords q @ curated_keywords q @ UNIVERSAL_KEYWORDS))"
      by (simp add: generateKeywords_def)
  qed
  show ?thesis
    using hierarchicalKeywords_fields [of q] curated generateKeywords_blocks [of q ks]
    by (intro conjI) blast+
qed

text \<open>
  The theorem at a question of exam CAT with the tags PYQ and cat: the tag \<open>pyq\<close>
  is also a universal keyword, and it is listed once, among the hierarchical keywords.
\<close>

theorem generateKeywords_order_witness:
  "ordinary_name (exam q_cat) \<and> ordinary_name (subExam q_cat)
   \<and> hierarchicalKeywords q_cat = [''cat'', ''quant'', ''quant'', ''arithmetic'', ''mcq'', ''easy'', ''pyq'', ''cat'']
   \<and> curated_keywords q_cat = [''cat pyq'', ''cat previous year questions'',
            ''cat quant questions'', ''cat aptitude practice'', ''cat exam preparation'']
   \<and> examKeywords q_cat = KeywordList (curated_keywords q_cat)
   \<and> generateKeywords q_cat =
       Inr [''cat'', ''quant'', ''arithmetic'', ''mcq'', ''easy'', ''pyq'',
            ''cat pyq'', ''cat previous year questions'', ''cat quant questions'',
            ''cat aptitude practice'', ''cat exam preparation'',
            ''aptitude questions'', ''aptitude practice'', ''previous year questions'',
            ''quantitative aptitude'', ''logical reasoning questions'',
            ''competitive exam questions'']
   \<and> distinct [''cat'', ''quant'', ''arithmetic'', ''mcq'', ''easy'', ''pyq'',
            ''cat pyq'', ''cat previous year questions'', ''cat quant questions'',
            ''cat aptitude practice'', ''cat exam preparation'',
            ''aptitude questions'', ''aptitude practice'', ''previous year questions'',
            ''quantitative aptitude'', ''logical reasoning questions'',
            ''competitive exam questions'']"
proof -
  let ?ks = "[''cat'', ''quant'', ''arithmetic'', ''mcq'', ''easy'', ''pyq'',
            ''cat pyq'', ''cat previous year questions'', ''cat quant questions'',
            ''cat aptitude practice'', ''cat exam preparation'',
            ''aptitude questions'', ''aptitude practice'', ''previous year questions'',
            ''quantitative aptitude'', ''logical reasoning questions'',
            ''competitive exam questions'']"
  have o: "ordinary_name (exam q_cat) \<and> ordinary_name (subExam q_cat)" by code_simp
  have h: "hierarchicalKeywords q_cat = [''cat'', ''quant'', ''quant'', ''arithmetic'', ''mcq'', ''easy'', ''pyq'', ''cat'']"
    by code_simp
  have c: "curated_keywords q_cat = [''cat pyq'', ''cat previous year questions'',
            ''cat quant questions'', ''cat aptitude practice'', ''cat exam preparation'']"
    by code_simp
  have n: "new_Set (hierarchicalKeywords q_cat @ curated_keywords q_cat @ UNIVERSAL_KEYWORDS) = ?ks"
    unfolding h c by code_simp
  from generateKeywords_order [of q_cat ?ks] o
  have e: "examKeywords q_cat = KeywordList (curated_keywords q_cat)"
    and g0: "generateKeywords q_cat =
            Inr (new_Set (hierarchicalKeywords q_cat @ curated_keywords q_cat @ UNIVERSAL_KEYWORDS))"
    by blast+
  from g0 n have g: "generateKeywords q_cat = Inr ?ks" by simp
  from generateKeywords_order [of q_cat ?ks] g have "distinct ?ks" by blast
  with o h c e g show ?thesis by blast
qed

section \<open>Length of a title\<close>

text \<open>
  Claim C8. For every question, the string returned by \<open>generateTitle\<close> has length
  at most 120.
\<close>

theorem generateTitle_length: "length (generateTitle q) \<le> 120"
  by (simp add: generateTitle_def title_from_def Let_def substring0_def)

text \<open>The theorem at a question whose statement is cut at a word boundary.\<close>

theorem generateTitle_length_witness:
  "generateTitle q_long = ''A train running at a uniform speed crosses a platform of length two... | Railways Medium | Time Speed and Distance''
   \<and> length (generateTitle q_long) \<le> 120"
proof -
  have "generateTitle q_long = ''A train running at a uniform speed crosses a platform of length two... | Railways Medium | Time Speed and Distance''"
    by code_simp
  then show ?thesis using generateTitle_length [of q_long] by simp
qed

section \<open>The index tables are a function of the question list\<close>

text \<open>
  Claim C9. \<open>buildQuestionIndexes\<close> reads nothing but its argument, so two
  applications to the same list yield the same tables: the same keys in the same
  order, and the same buckets in the same order. The tables are the ones the
  specification describes: every question is in the bucket of each key field it has,
  in the order of the list, keys in the order of their first occurrence, and
  \<open>byQuestionNumber\<close> holds the last question of each number.
\<close>

theorem buildQuestionIndexes_deterministic:
  "buildQuestionIndexes qs = spec_indexes qs
   \<and> (let first = buildQuestionIndexes qs; second = buildQuestionIndexes qs
      in map fst (byTopic first) = map fst (byTopic second)
       \<and> map fst (byCategory first) = map fst (byCategory second)
       \<and> map fst (byExam first) = map fst (byExam second)
       \<and> map fst (byExamAndTopic first) = map fst (byExamAndTopic second)
       \<and> map fst (byQuestionNumber first) = map fst (byQuestionNumber second)
       \<and> first = second)"
proof -
  have "buildQuestionIndexes qs = spec_indexes qs"
    by (rule indexes.equality)
       (simp_all add: spec_indexes_def byTopic_grouped byCategory_grouped byExam_grouped
          byExamAndTopic_grouped byQuestionNumber_last)
  then show ?thesis by (simp add: Let_def)
qed

text \<open>The theorem at a list of three questions, two of them of exam CAT.\<close>

theorem buildQuestionIndexes_deterministic_witness:
  "map fst (byExam (buildQuestionIndexes [q_cat9, q_hcf, q_cat])) = [''CAT'', ''SSC'']
   \<and> map_of (byExam (buildQuestionIndexes [q_cat9, q_hcf, q_cat])) ''CAT'' = Some [q_cat9, q_cat]
   \<and> map fst (byExamAndTopic (buildQuestionIndexes [q_cat9, q_hcf, q_cat])) = [''CAT::Arithmetic'', ''SSC::Number System'']
   \<and> map fst (byCategory (buildQuestionIndexes [q_cat9, q_hcf, q_cat])) = [''Quant'']
   \<and> map fst (byQuestionNumber (buildQuestionIndexes [q_cat9, q_hcf, q_cat])) = [9, 7, 3]"
proof -
  have "map fst (byExam (spec_indexes [q_cat9, q_hcf, q_cat])) = [''CAT'', ''SSC'']
   \<and> map_of (byExam (spec_indexes [q_cat9, q_hcf, q_cat])) ''CAT'' = Some [q_cat9, q_cat]
   \<and> map fst (byExamAndTopic (spec_indexes [q_cat9, q_hcf, q_cat])) = [''CAT::Arithmetic'', ''SSC::Number System'']
   \<and> map fst (byCategory (spec_indexes [q_cat9, q_hcf, q_cat])) = [''Quant'']
   \<and> map fst (byQuestionNumber (spec_indexes [q_cat9, q_hcf, q_cat])) = [9, 7, 3]"
    by code_simp
  with buildQuestionIndexes_deterministic [of "[q_cat9, q_hcf, q_cat]"] show ?thesis
    by simp
qed

section \<open>A base slug is never empty\<close>

text \<open>
  Claim C10. For every question (so also for one whose statement, exam and topic are
  all present), the slug of \<open>buildBaseSlug\<close>, and hence of \<open>generateQuickSlug\<close>, is
  not the empty string: when sanitization leaves nothing, the result is
  \<open>question-<questionNumber>\<close>, and this is what happens when statement, exam, topic
  and sub-exam consist of symbols only.
\<close>

theorem buildBaseSlug_never_empty:
  "buildBaseSlug q \<noteq> [] \<and> generateQuickSlug q \<noteq> []
   \<and> (final_sanitize (capped_slug q) = [] \<longrightarrow> buildBaseSlug q = ''question-'' @ numberToString (questionNumber q))
   \<and> (statement q = Text s \<and> symbols_only s \<and> symbols_only (or_empty (exam q))
        \<and> symbols_only (or_empty (topic q)) \<and> symbols_only (or_empty (subExam q))
      \<longrightarrow> buildBaseSlug q = ''question-'' @ numberToString (questionNumber q))"
proof -
  have ne: "buildBaseSlug q \<noteq> []"
    using buildBaseSlug_cases [of q] question_fallback_ends [of q] by auto
  then have quick: "generateQuickSlug q \<noteq> []"
    using question_fallback_ends [of q] by (simp add: generateQuickSlug_def)
  have fb: "final_sanitize (capped_slug q) = [] \<longrightarrow> buildBaseSlug q = ''question-'' @ numberToString (questionNumber q)"
    by (simp add: buildBaseSlug_def Let_def question_fallback_def)
  have sym: "statement q = Text s \<and> symbols_only s \<and> symbols_only (or_empty (exam q))
        \<and> symbols_only (or_empty (topic q)) \<and> symbols_only (or_empty (subExam q))
      \<longrightarrow> buildBaseSlug q = ''question-'' @ numberToString (questionNumber q)"
  proof
    assume a: "statement q = Text s \<and> symbols_only s \<and> symbols_only (or_empty (exam q))
        \<and> symbols_only (or_empty (topic q)) \<and> symbols_only (or_empty (subExam q))"
    then have "\<forall>c \<in> set (joined_slug q). \<not> is_az09 c" using joined_slug_symbols by blast
    then have "final_sanitize (capped_slug q) = []"
      unfolding capped_slug_eq by (rule final_sanitize_symbols)
    with fb show "buildBaseSlug q = ''question-'' @ numberToString (questionNumber q)" by simp
  qed
  show ?thesis using ne quick fb sym by blast
qed

text \<open>The theorem at a question made of question marks, exclamation marks and stars.\<close>

theorem buildBaseSlug_never_empty_witness:
  "statement q_symbols = Text ''???'' \<and> truthy (exam q_symbols) \<and> truthy (topic q_symbols)
   \<and> symbols_only ''???'' \<and> symbols_only (or_empty (exam q_symbols))
   \<and> symbols_only (or_empty (topic q_symbols)) \<and> symbols_only (or_empty (subExam q_symbols))
   \<and> final_sanitize (capped_slug q_symbols) = []
   \<and> buildBaseSlug q_symbols = ''question-7'' \<and> generateQuickSlug q_symbols = ''question-7''"
proof -
  have h: "statement q_symbols = Text ''???'' \<and> symbols_only ''???'' \<and> symbols_only (or_empty (exam q_symbols))
   \<and> symbols_only (or_empty (topic q_symbols)) \<and> symbols_only (or_empty (subExam q_symbols))"
    by code_simp
  have p: "truthy (exam q_symbols) \<and> truthy (topic q_symbols) \<and> statement_truthy (statement q_symbols)" by code_simp
  have f: "final_sanitize (capped_slug q_symbols) = []" by code_simp
  have n: "numberToString (questionNumber q_symbols) = ''7''" by code_simp
  from buildBaseSlug_never_empty [of q_symbols "''???''"] h n
  have b: "buildBaseSlug q_symbols = ''question-7''" by simp
  then have "generateQuickSlug q_symbols = ''question-7''"
    using p by (simp add: generateQuickSlug_def)
  with h p f b show ?thesis by simp
qed

end
